theory Spec2Isabelle
  imports Main
begin

section \<open>The game board of \<open>main.py\<close>\<close>

text \<open>
  \<open>GameBoard.board\<close> is a Python list of nine strings, each \<open>" "\<close>, \<open>"X"\<close> or
  \<open>"O"\<close>; it is modelled as a \<open>string list\<close>. \<open>GameBoard.winning_combinations\<close>
  is the constant list of index triples built in \<open>__init__\<close>.
\<close>

type_synonym board = "string list"

definition new_board :: board where
  "new_board = replicate 9 '' ''"

definition winning_combinations :: "nat list list" where
  "winning_combinations =
     [[0, 1, 2], [3, 4, 5], [6, 7, 8],
      [0, 3, 6], [1, 4, 7], [2, 5, 8],
      [0, 4, 8], [2, 4, 6]]"

text \<open>
  Exceptions that can leave the body of the receive loop. Only
  \<open>InvalidMoveException\<close> is caught inside the loop; every other one reaches one
  of the two \<open>except\<close> clauses of \<open>websocket_endpoint\<close>, and both call
  \<open>manager.disconnect\<close>. \<open>ConnectionClosed\<close> stands for what
  \<open>websocket.send_json\<close> and \<open>send_text\<close> raise on a connection that is
  closed.
\<close>

datatype exn = InvalidMoveException | IndexError | AttributeError | ConnectionClosed

text \<open>
  Python list indexing with an \<open>int\<close>: a negative index counts from the end, and an
  index outside \<open>-len .. len-1\<close> raises \<open>IndexError\<close> (here: \<open>None\<close>).
\<close>

definition py_index :: "'a list \<Rightarrow> int \<Rightarrow> nat option" where
  "py_index xs i =
     (if 0 \<le> i \<and> i < int (length xs) then Some (nat i)
      else if - int (length xs) \<le> i \<and> i < 0 then Some (nat (int (length xs) + i))
      else None)"

text \<open>\<open>GameBoard.make_move\<close>: the updated board, or the exception raised.\<close>

definition make_move :: "board \<Rightarrow> int \<Rightarrow> string \<Rightarrow> exn + board" where
  "make_move b position mark =
     (case py_index b position of
        None \<Rightarrow> Inl IndexError
      | Some i \<Rightarrow>
          if b ! i \<noteq> '' '' then Inl InvalidMoveException
          else Inr (b[i := mark]))"

text \<open>
  The condition of the loop in \<open>get_winner\<close>: the chained comparison
  \<open>board[c[0]] == board[c[1]] == board[c[2]] != " "\<close>.
\<close>

definition won :: "board \<Rightarrow> nat list \<Rightarrow> bool" where
  "won b c \<longleftrightarrow> b ! (c ! 0) = b ! (c ! 1) \<and> b ! (c ! 1) = b ! (c ! 2) \<and> b ! (c ! 2) \<noteq> '' ''"

text \<open>The \<open>for\<close> loop of \<open>get_winner\<close> over the remaining combinations.\<close>

fun scan :: "board \<Rightarrow> nat list list \<Rightarrow> string option" where
  "scan b [] = None"
| "scan b (c # cs) = (if won b c then Some (b ! (c ! 0)) else scan b cs)"

definition is_draw :: "board \<Rightarrow> bool" where
  "is_draw b \<longleftrightarrow> list_all (\<lambda>cell. cell \<noteq> '' '') b"

definition get_winner :: "board \<Rightarrow> string option" where
  "get_winner b =
     (case scan b winning_combinations of
        Some w \<Rightarrow> Some w
      | None \<Rightarrow> if is_draw b then Some ''draw'' else None)"

section \<open>Players, connections and the shared state\<close>

text \<open>
  A \<open>WebSocket\<close> object is hashed and compared by identity, so a connection is
  modelled by a number. \<open>Player\<close> and \<open>GameBoard\<close> objects are shared and mutated
  through several references (the registry, the queue, \<open>Player.opponent\<close>,
  \<open>Player.game_board\<close>), so they live in explicit stores: a reference is the index of
  the object in the store, and creating an object appends it.
\<close>

type_synonym ws = nat
type_synonym player_ref = nat
type_synonym board_ref = nat

record Player =
  websocket :: ws
  nickname :: string
  symbol :: string
  is_my_turn :: bool
  opponent :: "player_ref option"
  game_board :: "board_ref option"

text \<open>The JSON documents and the text frame that \<open>ConnectionManager\<close> sends.\<close>

datatype event =
    Error string
  | Start string string
  | Turn bool
  | MoveEvent int string
  | Gameover string
  | Text string

text \<open>
  The module-level state: \<open>manager.active_connections\<close>, the queue
  \<open>waiting_players\<close> (head first), the dictionary \<open>players\<close>, the two object
  stores, and the frames sent so far, each with the connection it was sent on, in the
  order of sending.
\<close>

record state =
  active_connections :: "ws set"
  waiting_players :: "player_ref list"
  players :: "ws \<rightharpoonup> player_ref"
  player_objs :: "Player list"
  board_objs :: "board list"
  outbox :: "(ws \<times> event) list"

definition initial :: state where
  "initial = \<lparr>active_connections = {}, waiting_players = [], players = Map.empty,
              player_objs = [], board_objs = [], outbox = []\<rparr>"

text \<open>
  A statement of the loop body leaves a state and, when it raises, the exception.
  \<open>then_do\<close> runs the next statement unless the one before it raised.
\<close>

type_synonym outcome = "state \<times> exn option"

definition then_do :: "outcome \<Rightarrow> (state \<Rightarrow> outcome) \<Rightarrow> outcome" where
  "then_do r f = (case r of (s, None) \<Rightarrow> f s | (s, Some e) \<Rightarrow> (s, Some e))"

text \<open>
  Sending on a websocket. A connection is open exactly while its handler runs, that is
  while it is in \<open>active_connections\<close>: the handler ends, and the server closes the
  socket, on the paths that call \<open>manager.disconnect\<close>. Sending on an open
  connection appends the frame; sending on a closed one raises and sends nothing.
\<close>

definition send :: "ws \<Rightarrow> event \<Rightarrow> state \<Rightarrow> outcome" where
  "send w e s =
     (if w \<in> active_connections s then (s\<lparr>outbox := outbox s @ [(w, e)]\<rparr>, None)
      else (s, Some ConnectionClosed))"

definition send_message :: "ws \<Rightarrow> string \<Rightarrow> state \<Rightarrow> outcome" where
  "send_message w message s = send w (Text message) s"

definition send_error :: "ws \<Rightarrow> string \<Rightarrow> state \<Rightarrow> outcome" where
  "send_error w message s = send w (Error message) s"

definition send_start :: "ws \<Rightarrow> string \<Rightarrow> string \<Rightarrow> state \<Rightarrow> outcome" where
  "send_start w mark opponent_nickname s = send w (Start mark opponent_nickname) s"

definition send_turn :: "ws \<Rightarrow> bool \<Rightarrow> state \<Rightarrow> outcome" where
  "send_turn w v s = send w (Turn v) s"

definition send_move :: "ws \<Rightarrow> int \<Rightarrow> string \<Rightarrow> state \<Rightarrow> outcome" where
  "send_move w cell mark s = send w (MoveEvent cell mark) s"

definition send_gameover :: "ws \<Rightarrow> string \<Rightarrow> state \<Rightarrow> outcome" where
  "send_gameover w result s = send w (Gameover result) s"

definition connect :: "ws \<Rightarrow> state \<Rightarrow> state" where
  "connect w s = s\<lparr>active_connections := insert w (active_connections s)\<rparr>"

definition disconnect :: "ws \<Rightarrow> state \<Rightarrow> state" where
  "disconnect w s = s\<lparr>active_connections := active_connections s - {w}\<rparr>"

text \<open>Reading and assigning the attributes of the Player object behind a reference.\<close>

definition obj :: "state \<Rightarrow> player_ref \<Rightarrow> Player" where
  "obj s p = player_objs s ! p"

definition assign :: "player_ref \<Rightarrow> (Player \<Rightarrow> Player) \<Rightarrow> state \<Rightarrow> state" where
  "assign p f s = s\<lparr>player_objs := (player_objs s)[p := f (player_objs s ! p)]\<rparr>"

text \<open>
  The \<open>join\<close> branch of \<open>websocket_endpoint\<close> (lines 118 to 141), statement by
  statement. \<open>queue.Queue.get\<close> takes the head of the queue, \<open>put\<close> appends.
  The assignments of lines 122 to 134 come before the first send; the turn flag is set
  at line 138, after the two \<open>start\<close> events.
\<close>

definition join :: "ws \<Rightarrow> string \<Rightarrow> state \<Rightarrow> outcome" where
  "join w nick s0 =
     (let new_player = length (player_objs s0);
          s = s0\<lparr>player_objs := player_objs s0 @
                 [\<lparr>websocket = w, nickname = nick, symbol = [], is_my_turn = False,
                   opponent = None, game_board = None\<rparr>]\<rparr>
      in case waiting_players s of
           [] \<Rightarrow> (s\<lparr>waiting_players := waiting_players s @ [new_player]\<rparr>, None)
         | opp # rest \<Rightarrow>
            (let s = s\<lparr>waiting_players := rest\<rparr>;
                 s = assign opp (\<lambda>p. p\<lparr>opponent := Some new_player\<rparr>) s;
                 s = assign new_player (\<lambda>p. p\<lparr>opponent := Some opp\<rparr>) s;
                 s = assign new_player (\<lambda>p. p\<lparr>symbol := ''X''\<rparr>) s;
                 s = assign opp (\<lambda>p. p\<lparr>symbol := ''O''\<rparr>) s;
                 new_game_board = length (board_objs s);
                 s = s\<lparr>board_objs := board_objs s @ [new_board]\<rparr>;
                 s = assign new_player (\<lambda>p. p\<lparr>game_board := Some new_game_board\<rparr>) s;
                 s = assign opp (\<lambda>p. p\<lparr>game_board := Some new_game_board\<rparr>) s;
                 s = s\<lparr>players := (players s)(w \<mapsto> new_player)\<rparr>;
                 s = s\<lparr>players := (players s)(websocket (obj s opp) \<mapsto> opp)\<rparr>
             in then_do
                  (send_start (websocket (obj s new_player)) (symbol (obj s new_player))
                     (nickname (obj s opp)) s)
                  (\<lambda>s. then_do
                     (send_start (websocket (obj s opp)) (symbol (obj s opp))
                        (nickname (obj s new_player)) s)
                     (\<lambda>s. send_turn w True
                           (assign new_player (\<lambda>p. p\<lparr>is_my_turn := True\<rparr>) s)))))"

text \<open>\<open>if winner:\<close> holds for a string that is not empty.\<close>

definition truthy :: "string option \<Rightarrow> bool" where
  "truthy r = (case r of None \<Rightarrow> False | Some w \<Rightarrow> w \<noteq> [])"

text \<open>
  The \<open>move\<close> branch (lines 142 to 169). \<open>players.get\<close> returns \<open>None\<close>
  for a connection without an entry, and reading an attribute of \<open>None\<close> raises
  \<open>AttributeError\<close>. The board is written at line 150, before the \<open>move\<close>
  events are sent.
\<close>

definition move :: "ws \<Rightarrow> int \<Rightarrow> state \<Rightarrow> outcome" where
  "move w cell s0 =
     (case players s0 w of
        None \<Rightarrow> (s0, Some AttributeError)
      | Some player \<Rightarrow>
          (let opp = opponent (obj s0 player);
               gb = game_board (obj s0 player)
           in if \<not> is_my_turn (obj s0 player)
              then send_error w ''Not your turn'' s0
              else
               (case gb of
                  None \<Rightarrow> (s0, Some AttributeError)
                | Some g \<Rightarrow>
                   (case make_move (board_objs s0 ! g) cell (symbol (obj s0 player)) of
                      Inl e \<Rightarrow>
                        if e = InvalidMoveException
                        then send_error w ''Invalid move'' s0
                        else (s0, Some e)
                    | Inr b \<Rightarrow>
                       (let s = s0\<lparr>board_objs := (board_objs s0)[g := b]\<rparr>
                        in then_do
                             (send_move (websocket (obj s player)) cell
                                (symbol (obj s player)) s)
                             (\<lambda>s. case opp of
                                None \<Rightarrow> (s, Some AttributeError)
                              | Some q \<Rightarrow>
                                 then_do
                                   (send_move (websocket (obj s q)) cell
                                      (symbol (obj s player)) s)
                                   (\<lambda>s. let winner = get_winner (board_objs s ! g)
                                     in if truthy winner
                                        then
                                          then_do
                                            (send_gameover (websocket (obj s player))
                                               (the winner) s)
                                            (\<lambda>s. send_gameover (websocket (obj s q))
                                                  (the winner) s)
                                        else
                                          (let s = assign player
                                                     (\<lambda>p. p\<lparr>is_my_turn := False\<rparr>) s;
                                               s = assign q
                                                     (\<lambda>p. p\<lparr>is_my_turn := True\<rparr>) s
                                           in then_do
                                                (send_turn (websocket (obj s player))
                                                   (is_my_turn (obj s player)) s)
                                                (\<lambda>s. send_turn (websocket (obj s q))
                                                      (is_my_turn (obj s q)) s)))))))))"

text \<open>
  The decoded inbound message, discriminated by its \<open>type\<close> field. The fields
  read by the branch are present, and \<open>cell\<close> is an integer, as in the event shapes
  of the specification; a frame that does not decode is the input \<open>Disconnect\<close> below.
\<close>

datatype message = Join string | Move int | Unknown string

fun receive :: "ws \<Rightarrow> message \<Rightarrow> state \<Rightarrow> outcome" where
  "receive w (Join nick) s = join w nick s"
| "receive w (Move cell) s = move w cell s"
| "receive w (Unknown t) s = send_message w (''Unknown message type:'' @ t) s"

text \<open>
  What happens on a connection: it is accepted (\<open>manager.connect\<close>), a message
  arrives and one iteration of the loop runs, or \<open>receive_json\<close> raises
  (\<open>WebSocketDisconnect\<close>, or a frame that does not decode). An exception that
  leaves the loop body ends the handler through \<open>manager.disconnect\<close>, like a
  disconnect. A message or a disconnect on a connection whose handler is not running
  cannot occur and changes nothing.
\<close>

datatype input = Connect | Receive message | Disconnect

fun step :: "state \<Rightarrow> ws \<times> input \<Rightarrow> state" where
  "step s (w, Connect) = connect w s"
| "step s (w, Receive m) =
     (if w \<notin> active_connections s then s
      else case receive w m s of
             (s', None) \<Rightarrow> s'
           | (s', Some e) \<Rightarrow> disconnect w s')"
| "step s (w, Disconnect) =
     (if w \<notin> active_connections s then s else disconnect w s)"

definition run :: "(ws \<times> input) list \<Rightarrow> state" where
  "run evs = foldl step initial evs"


section \<open>Well-formed states\<close>

text \<open>
  What holds of the state after every input. A Player without opponent has no board and
  its turn flag is false. A Player with an opponent is the opponent of its opponent, a
  different object; the two never both have the turn flag set; its symbol is
  \<open>"X"\<close> or \<open>"O"\<close>; and the two share one existing board. The queue holds at most
  one Player, which has no opponent. A registry entry leads to a paired Player whose
  websocket is the key. Every board has nine cells, each \<open>" "\<close>, \<open>"X"\<close> or
  \<open>"O"\<close>.
\<close>

definition paired_ok :: "state \<Rightarrow> player_ref \<Rightarrow> bool" where
  "paired_ok s p \<longleftrightarrow>
     (opponent (obj s p) = None \<longrightarrow>
        \<not> is_my_turn (obj s p) \<and> game_board (obj s p) = None)
   \<and> (\<forall>q. opponent (obj s p) = Some q \<longrightarrow>
          q < length (player_objs s) \<and> q \<noteq> p \<and> opponent (obj s q) = Some p
          \<and> \<not> (is_my_turn (obj s p) \<and> is_my_turn (obj s q))
          \<and> (symbol (obj s p) = ''X'' \<or> symbol (obj s p) = ''O'')
          \<and> (\<exists>g < length (board_objs s).
                game_board (obj s p) = Some g \<and> game_board (obj s q) = Some g))"

definition board_ok :: "board \<Rightarrow> bool" where
  "board_ok b \<longleftrightarrow> length b = 9 \<and> set b \<subseteq> {'' '', ''X'', ''O''}"

definition invariant :: "state \<Rightarrow> bool" where
  "invariant s \<longleftrightarrow>
     (\<forall>p < length (player_objs s). paired_ok s p)
   \<and> (\<forall>p \<in> set (waiting_players s). p < length (player_objs s) \<and> opponent (obj s p) = None)
   \<and> length (waiting_players s) \<le> 1
   \<and> (\<forall>w p. players s w = Some p \<longrightarrow>
         p < length (player_objs s) \<and> opponent (obj s p) \<noteq> None \<and> websocket (obj s p) = w)
   \<and> (\<forall>b \<in> set (board_objs s). board_ok b)"

text \<open>
  \<open>same_turn s s'\<close>: every Player of \<open>s\<close> that has an opponent has the same
  opponent in \<open>s'\<close>, and one of the two has the turn flag in \<open>s'\<close> exactly when
  one of the two had it in \<open>s\<close>.
\<close>

definition same_turn :: "state \<Rightarrow> state \<Rightarrow> bool" where
  "same_turn s s' \<longleftrightarrow>
     length (player_objs s) \<le> length (player_objs s')
   \<and> (\<forall>p < length (player_objs s). \<forall>q. opponent (obj s p) = Some q \<longrightarrow>
         opponent (obj s' p) = Some q
       \<and> ((is_my_turn (obj s' p) \<or> is_my_turn (obj s' q))
            = (is_my_turn (obj s p) \<or> is_my_turn (obj s q))))"

section \<open>Finished matches\<close>

text \<open>
  The program keeps no record that a game is over. A board is called finished when
  \<open>get_winner\<close> returns a value that \<open>if winner:\<close> accepts, which is the condition
  under which \<open>gameover\<close> is sent. \<open>keeps g s s'\<close> says that in \<open>s'\<close> board
  \<open>g\<close> is finished and every Player of \<open>s\<close> on board \<open>g\<close> still has that board
  and the turn flag it had in \<open>s\<close>.
\<close>

definition finished :: "state \<Rightarrow> board_ref \<Rightarrow> bool" where
  "finished s g \<longleftrightarrow> truthy (get_winner (board_objs s ! g))"

definition keeps :: "board_ref \<Rightarrow> state \<Rightarrow> state \<Rightarrow> bool" where
  "keeps g s s' \<longleftrightarrow>
     g < length (board_objs s') \<and> finished s' g
   \<and> length (player_objs s) \<le> length (player_objs s')
   \<and> (\<forall>p < length (player_objs s). game_board (obj s p) = Some g \<longrightarrow>
         is_my_turn (obj s' p) = is_my_turn (obj s p) \<and> game_board (obj s' p) = Some g)"

section \<open>Concrete sessions\<close>

text \<open>
  Sessions used to run the model on concrete inputs. In \<open>session_paired\<close> connection 1
  joins as alice and waits, then connection 2 joins as bob.
\<close>

definition session_waiting :: "(ws \<times> input) list" where
  "session_waiting = [(1, Connect), (1, Receive (Join ''alice''))]"

definition session_paired :: "(ws \<times> input) list" where
  "session_paired = session_waiting @ [(2, Connect), (2, Receive (Join ''bob''))]"

definition session_left :: "(ws \<times> input) list" where
  "session_left = session_waiting @ [(1, Disconnect), (2, Connect), (2, Receive (Join ''bob''))]"

text \<open>
  In \<open>session_won\<close> bob, who has \<open>"X"\<close>, plays cells 0, 1 and 2 and alice plays 3
  and 4: the top row is complete after the last move.
\<close>

definition session_won :: "(ws \<times> input) list" where
  "session_won = session_paired @
     [(2, Receive (Move 0)), (1, Receive (Move 3)), (2, Receive (Move 1)),
      (1, Receive (Move 4)), (2, Receive (Move 2))]"

text \<open>
  The eight triples as the specification describes them: three rows, three columns and
  the two diagonals of the 3x3 grid whose cell \<open>(r, c)\<close> has index \<open>3 * r + c\<close>.
\<close>

definition spec_rows :: "nat list list" where
  "spec_rows = map (\<lambda>r. [3 * r, 3 * r + 1, 3 * r + 2]) [0, 1, 2]"

definition spec_columns :: "nat list list" where
  "spec_columns = map (\<lambda>c. [c, 3 + c, 6 + c]) [0, 1, 2]"

definition spec_diagonals :: "nat list list" where
  "spec_diagonals = [[0, 4, 8], [2, 4, 6]]"

definition spec_triples :: "nat list list" where
  "spec_triples = spec_rows @ spec_columns @ spec_diagonals"

text \<open>
  A triple is fully occupied by one symbol, in the words of the specification: its
  first cell is not empty and the other two hold what the first holds.
\<close>

definition occupied_by_one_symbol :: "board \<Rightarrow> nat list \<Rightarrow> bool" where
  "occupied_by_one_symbol b t \<longleftrightarrow>
     b ! (t ! 0) \<noteq> '' '' \<and> b ! (t ! 1) = b ! (t ! 0) \<and> b ! (t ! 2) = b ! (t ! 0)"

section \<open>Evaluation of a board\<close>

lemma scan_none: "scan b cs = None \<longleftrightarrow> (\<forall>c \<in> set cs. \<not> won b c)"
  by (induction cs) auto

lemma scan_first:
  "i < length cs \<Longrightarrow> won b (cs ! i) \<Longrightarrow> \<forall>j < i. \<not> won b (cs ! j) \<Longrightarrow>
     scan b cs = Some (b ! ((cs ! i) ! 0))"
proof (induction cs arbitrary: i)
  case Nil
  then show ?case by simp
next
  case (Cons c cs)
  show ?case
  proof (cases i)
    case 0
    with Cons.prems show ?thesis by simp
  next
    case (Suc k)
    from Cons.prems Suc have nw: "\<not> won b c" by auto
    from Cons.prems Suc have "k < length cs" "won b (cs ! k)" by auto
    moreover from Cons.prems Suc have "\<forall>j < k. \<not> won b (cs ! j)" by auto
    ultimately have "scan b cs = Some (b ! ((cs ! k) ! 0))" by (rule Cons.IH)
    with nw Suc show ?thesis by simp
  qed
qed

lemma won_occupied: "won b t \<longleftrightarrow> occupied_by_one_symbol b t"
  by (auto simp: won_def occupied_by_one_symbol_def)

lemma combinations_spec: "winning_combinations = spec_triples"
  by (simp add: winning_combinations_def spec_triples_def spec_rows_def spec_columns_def
      spec_diagonals_def)

text \<open>
  Claim C8. The combinations scanned are exactly the three rows, the three columns and
  the two diagonals, eight in all and in this order. For a board \<open>b\<close>: when the
  \<open>i\<close>-th of them is the first whose three cells are occupied by one symbol,
  \<open>get_winner\<close> returns the symbol in its cells; when none of the eight is occupied by
  one symbol and no cell is empty it returns \<open>"draw"\<close>; when none is and some cell is
  empty it returns \<open>None\<close>.
\<close>

theorem get_winner_evaluation:
  "winning_combinations = spec_triples \<and> length spec_triples = 8
   \<and> (\<forall>i < 8. occupied_by_one_symbol b (spec_triples ! i)
              \<and> (\<forall>j < i. \<not> occupied_by_one_symbol b (spec_triples ! j))
        \<longrightarrow> get_winner b = Some (b ! ((spec_triples ! i) ! 0))
            \<and> b ! ((spec_triples ! i) ! 1) = b ! ((spec_triples ! i) ! 0)
            \<and> b ! ((spec_triples ! i) ! 2) = b ! ((spec_triples ! i) ! 0))
   \<and> ((\<forall>t \<in> set spec_triples. \<not> occupied_by_one_symbol b t) \<and> '' '' \<notin> set b
        \<longrightarrow> get_winner b = Some ''draw'')
   \<and> ((\<forall>t \<in> set spec_triples. \<not> occupied_by_one_symbol b t) \<and> '' '' \<in> set b
        \<longrightarrow> get_winner b = None)"
proof -
  have len: "length spec_triples = 8"
    by (simp add: spec_triples_def spec_rows_def spec_columns_def spec_diagonals_def)
  note shape = combinations_spec
  have win: "get_winner b = Some (b ! ((spec_triples ! i) ! 0))
             \<and> b ! ((spec_triples ! i) ! 1) = b ! ((spec_triples ! i) ! 0)
             \<and> b ! ((spec_triples ! i) ! 2) = b ! ((spec_triples ! i) ! 0)"
    if "i < 8" "occupied_by_one_symbol b (spec_triples ! i)"
       "\<forall>j < i. \<not> occupied_by_one_symbol b (spec_triples ! j)" for i
  proof -
    from that len have "scan b spec_triples = Some (b ! ((spec_triples ! i) ! 0))"
      by (intro scan_first) (simp_all add: won_occupied)
    then have "get_winner b = Some (b ! ((spec_triples ! i) ! 0))"
      by (simp add: get_winner_def shape)
    with that(2) show ?thesis by (simp add: occupied_by_one_symbol_def)
  qed
  have draw: "get_winner b = Some ''draw''"
    if "\<forall>t \<in> set spec_triples. \<not> occupied_by_one_symbol b t" "'' '' \<notin> set b"
  proof -
    from that(1) have "scan b spec_triples = None" by (simp add: scan_none won_occupied)
    moreover from that(2) have "is_draw b" by (auto simp: is_draw_def list_all_iff)
    ultimately show ?thesis by (simp add: get_winner_def shape)
  qed
  have none: "get_winner b = None"
    if "\<forall>t \<in> set spec_triples. \<not> occupied_by_one_symbol b t" "'' '' \<in> set b"
  proof -
    from that(1) have "scan b spec_triples = None" by (simp add: scan_none won_occupied)
    moreover from that(2) have "\<not> is_draw b" by (auto simp: is_draw_def list_all_iff)
    ultimately show ?thesis by (simp add: get_winner_def shape)
  qed
  from len shape win draw none show ?thesis by blast
qed

theorem get_winner_evaluation_witness:
  "occupied_by_one_symbol [''O'', ''X'', ''X'', ''O'', ''O'', ''O'', '' '', ''X'', '' '']
     (spec_triples ! 1)
   \<and> \<not> occupied_by_one_symbol [''O'', ''X'', ''X'', ''O'', ''O'', ''O'', '' '', ''X'', '' '']
          (spec_triples ! 0)
   \<and> get_winner [''O'', ''X'', ''X'', ''O'', ''O'', ''O'', '' '', ''X'', '' ''] = Some ''O''
   \<and> list_all
        (\<lambda>t. \<not> occupied_by_one_symbol [''X'', ''O'', ''X'', ''X'', ''O'', ''O'', ''O'', ''X'', ''X''] t)
        spec_triples
   \<and> '' '' \<notin> set [''X'', ''O'', ''X'', ''X'', ''O'', ''O'', ''O'', ''X'', ''X'']
   \<and> get_winner [''X'', ''O'', ''X'', ''X'', ''O'', ''O'', ''O'', ''X'', ''X''] = Some ''draw''
   \<and> list_all
        (\<lambda>t. \<not> occupied_by_one_symbol [''X'', ''O'', '' '', '' '', '' '', '' '', '' '', '' '', '' ''] t)
        spec_triples
   \<and> '' '' \<in> set [''X'', ''O'', '' '', '' '', '' '', '' '', '' '', '' '', '' '']
   \<and> get_winner [''X'', ''O'', '' '', '' '', '' '', '' '', '' '', '' '', '' ''] = None"
proof -
  let ?w = "[''O'', ''X'', ''X'', ''O'', ''O'', ''O'', '' '', ''X'', '' '']"
  let ?d = "[''X'', ''O'', ''X'', ''X'', ''O'', ''O'', ''O'', ''X'', ''X'']"
  let ?n = "[''X'', ''O'', '' '', '' '', '' '', '' '', '' '', '' '', '' '']"
  note triples = spec_triples_def spec_rows_def spec_columns_def spec_diagonals_def
  have w1: "occupied_by_one_symbol ?w (spec_triples ! 1)"
    by (simp add: occupied_by_one_symbol_def triples)
  have w0: "\<not> occupied_by_one_symbol ?w (spec_triples ! 0)"
    by (simp add: occupied_by_one_symbol_def triples)
  then have w2: "\<forall>j < 1. \<not> occupied_by_one_symbol ?w (spec_triples ! j)"
    by simp
  have d1: "\<forall>t \<in> set spec_triples. \<not> occupied_by_one_symbol ?d t"
    by (simp add: occupied_by_one_symbol_def triples)
  have d2: "'' '' \<notin> set ?d" by simp
  have n1: "\<forall>t \<in> set spec_triples. \<not> occupied_by_one_symbol ?n t"
    by (simp add: occupied_by_one_symbol_def triples)
  have n2: "'' '' \<in> set ?n" by simp
  from get_winner_evaluation [of ?w] w1 w2
  have "get_winner ?w = Some (?w ! ((spec_triples ! 1) ! 0))"
    by (metis one_less_numeral_iff semiring_norm(76))
  then have w3: "get_winner ?w = Some ''O''"
    by (simp add: triples)
  from get_winner_evaluation [of ?d] d1 d2 have d3: "get_winner ?d = Some ''draw''"
    by blast
  from get_winner_evaluation [of ?n] n1 n2 have n3: "get_winner ?n = None"
    by blast
  from d1 have d1': "list_all (\<lambda>t. \<not> occupied_by_one_symbol ?d t) spec_triples"
    by (simp add: list_all_iff)
  from n1 have n1': "list_all (\<lambda>t. \<not> occupied_by_one_symbol ?n t) spec_triples"
    by (simp add: list_all_iff)
  from w1 w0 w3 d1' d2 d3 n1' n2 n3 show ?thesis by blast
qed

section \<open>One iteration of the receive loop, case by case\<close>

lemma new_board_cells:
  "new_board = ['' '', '' '', '' '', '' '', '' '', '' '', '' '', '' '', '' '']"
  by (simp add: new_board_def numeral_eq_Suc)

lemma then_do_ok [simp]: "then_do (s, None) f = f s"
  by (simp add: then_do_def)

lemma then_do_raised [simp]: "then_do (s, Some e) f = (s, Some e)"
  by (simp add: then_do_def)

lemma send_open:
  "w \<in> active_connections s \<Longrightarrow> send w e s = (s\<lparr>outbox := outbox s @ [(w, e)]\<rparr>, None)"
  by (simp add: send_def)

lemma send_closed:
  "w \<notin> active_connections s \<Longrightarrow> send w e s = (s, Some ConnectionClosed)"
  by (simp add: send_def)

lemmas send_defs =
  send_open send_closed send_message_def send_error_def send_start_def send_turn_def
  send_move_def send_gameover_def

lemmas model_defs =
  run_def initial_def connect_def disconnect_def join_def move_def Let_def assign_def obj_def
  send_defs make_move_def py_index_def get_winner_def won_def
  winning_combinations_def is_draw_def truthy_def new_board_cells

lemma run_snoc: "run (evs @ [e]) = step (run evs) e"
  by (simp add: run_def)

lemma join_waits:
  "waiting_players s = [] \<Longrightarrow>
   join w nick s =
     (s\<lparr>player_objs := player_objs s @
          [\<lparr>websocket = w, nickname = nick, symbol = [], is_my_turn = False,
            opponent = None, game_board = None\<rparr>],
        waiting_players := [length (player_objs s)]\<rparr>, None)"
  by (simp add: join_def Let_def)

lemma join_pairs:
  assumes "waiting_players s = opp # rest" and "opp < length (player_objs s)"
    and "w \<in> active_connections s"
    and "websocket (player_objs s ! opp) \<in> active_connections s"
  shows "join w nick s =
     (s\<lparr>player_objs :=
          (player_objs s)[opp := (player_objs s ! opp)
              \<lparr>opponent := Some (length (player_objs s)), symbol := ''O'',
               game_board := Some (length (board_objs s))\<rparr>] @
          [\<lparr>websocket = w, nickname = nick, symbol = ''X'', is_my_turn = True,
            opponent = Some opp, game_board = Some (length (board_objs s))\<rparr>],
        waiting_players := rest,
        board_objs := board_objs s @ [new_board],
        players := (players s)(w \<mapsto> length (player_objs s),
                               websocket (player_objs s ! opp) \<mapsto> opp),
        outbox := outbox s @
          [(w, Start ''X'' (nickname (player_objs s ! opp))),
           (websocket (player_objs s ! opp), Start ''O'' nick),
           (w, Turn True)]\<rparr>, None)"
proof -
  have "snd (join w nick s) = None"
    using assms
    by (simp add: join_def Let_def assign_def obj_def send_defs nth_append list_update_append)
  moreover have "fst (join w nick s) =
      s\<lparr>player_objs :=
          (player_objs s)[opp := (player_objs s ! opp)
              \<lparr>opponent := Some (length (player_objs s)), symbol := ''O'',
               game_board := Some (length (board_objs s))\<rparr>] @
          [\<lparr>websocket = w, nickname = nick, symbol = ''X'', is_my_turn = True,
            opponent = Some opp, game_board = Some (length (board_objs s))\<rparr>],
        waiting_players := rest,
        board_objs := board_objs s @ [new_board],
        players := (players s)(w \<mapsto> length (player_objs s),
                               websocket (player_objs s ! opp) \<mapsto> opp),
        outbox := outbox s @
          [(w, Start ''X'' (nickname (player_objs s ! opp))),
           (websocket (player_objs s ! opp), Start ''O'' nick),
           (w, Turn True)]\<rparr>"
    using assms
    by (intro state.equality)
       (simp_all add: join_def Let_def assign_def obj_def send_defs nth_append
          list_update_append)
  ultimately show ?thesis by (simp add: prod_eq_iff)
qed

lemma join_pairs_closed:
  assumes "waiting_players s = opp # rest" and "opp < length (player_objs s)"
    and "w \<in> active_connections s"
    and "websocket (player_objs s ! opp) \<notin> active_connections s"
  shows "join w nick s =
     (s\<lparr>player_objs :=
          (player_objs s)[opp := (player_objs s ! opp)
              \<lparr>opponent := Some (length (player_objs s)), symbol := ''O'',
               game_board := Some (length (board_objs s))\<rparr>] @
          [\<lparr>websocket = w, nickname = nick, symbol = ''X'', is_my_turn = False,
            opponent = Some opp, game_board = Some (length (board_objs s))\<rparr>],
        waiting_players := rest,
        board_objs := board_objs s @ [new_board],
        players := (players s)(w \<mapsto> length (player_objs s),
                               websocket (player_objs s ! opp) \<mapsto> opp),
        outbox := outbox s @ [(w, Start ''X'' (nickname (player_objs s ! opp)))]\<rparr>,
      Some ConnectionClosed)"
proof -
  have "snd (join w nick s) = Some ConnectionClosed"
    using assms
    by (simp add: join_def Let_def assign_def obj_def send_defs nth_append list_update_append)
  moreover have "fst (join w nick s) =
      s\<lparr>player_objs :=
          (player_objs s)[opp := (player_objs s ! opp)
              \<lparr>opponent := Some (length (player_objs s)), symbol := ''O'',
               game_board := Some (length (board_objs s))\<rparr>] @
          [\<lparr>websocket = w, nickname = nick, symbol = ''X'', is_my_turn = False,
            opponent = Some opp, game_board = Some (length (board_objs s))\<rparr>],
        waiting_players := rest,
        board_objs := board_objs s @ [new_board],
        players := (players s)(w \<mapsto> length (player_objs s),
                               websocket (player_objs s ! opp) \<mapsto> opp),
        outbox := outbox s @ [(w, Start ''X'' (nickname (player_objs s ! opp)))]\<rparr>"
    using assms
    by (intro state.equality)
       (simp_all add: join_def Let_def assign_def obj_def send_defs nth_append
          list_update_append)
  ultimately show ?thesis by (simp add: prod_eq_iff)
qed

lemma move_unregistered:
  "players s w = None \<Longrightarrow> move w c s = (s, Some AttributeError)"
  by (simp add: move_def)

lemma move_not_turn:
  "w \<in> active_connections s \<Longrightarrow> players s w = Some p \<Longrightarrow> \<not> is_my_turn (obj s p) \<Longrightarrow>
   move w c s = (s\<lparr>outbox := outbox s @ [(w, Error ''Not your turn'')]\<rparr>, None)"
  by (simp add: move_def Let_def send_defs)

lemma move_index_error:
  "players s w = Some p \<Longrightarrow> is_my_turn (obj s p) \<Longrightarrow> game_board (obj s p) = Some g \<Longrightarrow>
   py_index (board_objs s ! g) c = None \<Longrightarrow>
   move w c s = (s, Some IndexError)"
  by (simp add: move_def Let_def make_move_def)

lemma move_occupied:
  "w \<in> active_connections s \<Longrightarrow> players s w = Some p \<Longrightarrow> is_my_turn (obj s p) \<Longrightarrow>
   game_board (obj s p) = Some g \<Longrightarrow>
   py_index (board_objs s ! g) c = Some i \<Longrightarrow> board_objs s ! g ! i \<noteq> '' '' \<Longrightarrow>
   move w c s = (s\<lparr>outbox := outbox s @ [(w, Error ''Invalid move'')]\<rparr>, None)"
  by (simp add: move_def Let_def make_move_def send_defs)

lemma move_gameover:
  assumes "players s w = Some p" "is_my_turn (obj s p)" "game_board (obj s p) = Some g"
    "py_index (board_objs s ! g) c = Some i" "board_objs s ! g ! i = '' ''"
    "opponent (obj s p) = Some q" "g < length (board_objs s)"
    "get_winner ((board_objs s ! g)[i := symbol (obj s p)]) = Some r" "r \<noteq> []"
    "websocket (obj s p) \<in> active_connections s" "websocket (obj s q) \<in> active_connections s"
  shows "move w c s =
    (s\<lparr>board_objs := (board_objs s)[g := (board_objs s ! g)[i := symbol (obj s p)]],
       outbox := outbox s @
         [(websocket (obj s p), MoveEvent c (symbol (obj s p))),
          (websocket (obj s q), MoveEvent c (symbol (obj s p))),
          (websocket (obj s p), Gameover r),
          (websocket (obj s q), Gameover r)]\<rparr>, None)"
  using assms
  by (simp add: move_def Let_def make_move_def send_defs obj_def truthy_def)

lemma move_continues:
  assumes "players s w = Some p" "is_my_turn (obj s p)" "game_board (obj s p) = Some g"
    "py_index (board_objs s ! g) c = Some i" "board_objs s ! g ! i = '' ''"
    "opponent (obj s p) = Some q" "g < length (board_objs s)"
    "\<not> truthy (get_winner ((board_objs s ! g)[i := symbol (obj s p)]))"
    "p < length (player_objs s)" "q < length (player_objs s)" "p \<noteq> q"
    "websocket (obj s p) \<in> active_connections s" "websocket (obj s q) \<in> active_connections s"
  shows "move w c s =
    (s\<lparr>board_objs := (board_objs s)[g := (board_objs s ! g)[i := symbol (obj s p)]],
       player_objs := (player_objs s)
          [p := (obj s p)\<lparr>is_my_turn := False\<rparr>, q := (obj s q)\<lparr>is_my_turn := True\<rparr>],
       outbox := outbox s @
         [(websocket (obj s p), MoveEvent c (symbol (obj s p))),
          (websocket (obj s q), MoveEvent c (symbol (obj s p))),
          (websocket (obj s p), Turn False),
          (websocket (obj s q), Turn True)]\<rparr>, None)"
  using assms
  by (simp add: move_def Let_def make_move_def send_defs obj_def assign_def)

lemma move_cut_short:
  assumes "players s w = Some p" "is_my_turn (obj s p)" "game_board (obj s p) = Some g"
    "py_index (board_objs s ! g) c = Some i" "board_objs s ! g ! i = '' ''"
    "opponent (obj s p) = Some q"
    "websocket (obj s p) \<in> active_connections s" "websocket (obj s q) \<notin> active_connections s"
  shows "move w c s =
    (s\<lparr>board_objs := (board_objs s)[g := (board_objs s ! g)[i := symbol (obj s p)]],
       outbox := outbox s @ [(websocket (obj s p), MoveEvent c (symbol (obj s p)))]\<rparr>,
     Some ConnectionClosed)"
  using assms
  by (simp add: move_def Let_def make_move_def send_defs obj_def)

section \<open>The concrete sessions, run\<close>

lemma run_session_waiting:
  "run session_waiting =
     \<lparr>active_connections = {1}, waiting_players = [0], players = Map.empty,
      player_objs = [\<lparr>websocket = 1, nickname = ''alice'', symbol = [], is_my_turn = False,
                      opponent = None, game_board = None\<rparr>],
      board_objs = [], outbox = []\<rparr>"
  by (simp add: session_waiting_def model_defs)

lemma run_session_paired:
  "run session_paired =
     \<lparr>active_connections = {1, 2}, waiting_players = [],
      players = [2 \<mapsto> 1, 1 \<mapsto> 0],
      player_objs = [\<lparr>websocket = 1, nickname = ''alice'', symbol = ''O'', is_my_turn = False,
                      opponent = Some 1, game_board = Some 0\<rparr>,
                     \<lparr>websocket = 2, nickname = ''bob'', symbol = ''X'', is_my_turn = True,
                      opponent = Some 0, game_board = Some 0\<rparr>],
      board_objs = [['' '', '' '', '' '', '' '', '' '', '' '', '' '', '' '', '' '']],
      outbox = [(2, Start ''X'' ''alice''), (1, Start ''O'' ''bob''), (2, Turn True)]\<rparr>"
  unfolding session_paired_def run_def foldl_append
  unfolding run_def [symmetric] run_session_waiting
  by (simp add: model_defs insert_commute)

lemma run_session_left:
  "run session_left =
     \<lparr>active_connections = {}, waiting_players = [],
      players = [2 \<mapsto> 1, 1 \<mapsto> 0],
      player_objs = [\<lparr>websocket = 1, nickname = ''alice'', symbol = ''O'', is_my_turn = False,
                      opponent = Some 1, game_board = Some 0\<rparr>,
                     \<lparr>websocket = 2, nickname = ''bob'', symbol = ''X'', is_my_turn = False,
                      opponent = Some 0, game_board = Some 0\<rparr>],
      board_objs = [['' '', '' '', '' '', '' '', '' '', '' '', '' '', '' '', '' '']],
      outbox = [(2, Start ''X'' ''alice'')]\<rparr>"
  unfolding session_left_def run_def foldl_append
  unfolding run_def [symmetric] run_session_waiting
  by (simp add: model_defs)

section \<open>A move on a connection without a registry entry\<close>

text \<open>
  Claim C4, as amended. A \<open>move\<close> arriving on a connection that has no entry in
  \<open>players\<close> (it never joined, or it joined and has not been paired) emits nothing:
  \<open>players.get\<close> yields \<open>None\<close>, reading \<open>player.opponent\<close> raises, the exception
  leaves the loop and \<open>manager.disconnect\<close> removes the connection from
  \<open>active_connections\<close>. Nothing else of the state changes.
\<close>

theorem move_without_entry:
  assumes "w \<in> active_connections s" and "players s w = None"
  shows "step s (w, Receive (Move c)) = s\<lparr>active_connections := active_connections s - {w}\<rparr>"
  using assms by (simp add: move_unregistered disconnect_def)

theorem move_without_entry_witness:
  "1 \<in> active_connections (run session_waiting) \<and> players (run session_waiting) 1 = None
   \<and> step (run session_waiting) (1, Receive (Move 0)) =
       (run session_waiting)\<lparr>active_connections := active_connections (run session_waiting) - {1}\<rparr>"
proof -
  have a: "1 \<in> active_connections (run session_waiting)"
    and b: "players (run session_waiting) 1 = None"
    by (simp_all add: run_session_waiting)
  from a b move_without_entry [OF a b, of 0] show ?thesis by blast
qed

text \<open>
  The claim as stated fails both for a connection that never joined and for one that is
  waiting: no \<open>error\<close> event is sent and the connection does not stay open.
\<close>

theorem move_without_entry_counterexample:
  "players (run [(1, Connect)]) 1 = None
   \<and> outbox (step (run [(1, Connect)]) (1, Receive (Move 0))) = []
   \<and> 1 \<notin> active_connections (step (run [(1, Connect)]) (1, Receive (Move 0)))
   \<and> players (run session_waiting) 1 = None
   \<and> outbox (step (run session_waiting) (1, Receive (Move 0))) = []
   \<and> 1 \<notin> active_connections (step (run session_waiting) (1, Receive (Move 0)))"
  by (simp add: run_session_waiting move_unregistered disconnect_def)
     (simp add: model_defs)

section \<open>Disconnecting while waiting\<close>


lemma run_session_waiting_2:
  "run (session_waiting @ [(2, Connect)]) =
     \<lparr>active_connections = {2, 1}, waiting_players = [0], players = Map.empty,
      player_objs = [\<lparr>websocket = 1, nickname = ''alice'', symbol = [], is_my_turn = False,
                      opponent = None, game_board = None\<rparr>],
      board_objs = [], outbox = []\<rparr>"
  by (simp add: run_snoc run_session_waiting connect_def)



section \<open>Moves that are not applied\<close>

lemma py_index_out_of_range:
  "length xs = 9 \<Longrightarrow> 9 \<le> c \<or> c < - 9 \<Longrightarrow> py_index xs c = None"
  by (auto simp: py_index_def)

lemma run_session_first_move:
  "run (session_paired @ [(2, Receive (Move 0))]) =
     \<lparr>active_connections = {1, 2}, waiting_players = [],
      players = [2 \<mapsto> 1, 1 \<mapsto> 0],
      player_objs = [\<lparr>websocket = 1, nickname = ''alice'', symbol = ''O'', is_my_turn = True,
                      opponent = Some 1, game_board = Some 0\<rparr>,
                     \<lparr>websocket = 2, nickname = ''bob'', symbol = ''X'', is_my_turn = False,
                      opponent = Some 0, game_board = Some 0\<rparr>],
      board_objs = [[''X'', '' '', '' '', '' '', '' '', '' '', '' '', '' '', '' '']],
      outbox = [(2, Start ''X'' ''alice''), (1, Start ''O'' ''bob''), (2, Turn True),
                (2, MoveEvent 0 ''X''), (1, MoveEvent 0 ''X''), (2, Turn False), (1, Turn True)]\<rparr>"
  by (simp add: run_snoc run_session_paired) (simp add: model_defs)

text \<open>
  Claim C3, as amended. Take a registered connection whose board has nine cells and a
  position that Python cannot index (\<open>9\<close> or more, or \<open>-10\<close> or less). If the turn
  flag of its Player is set, \<open>make_move\<close> raises \<open>IndexError\<close>, which is not the
  exception caught inside the loop: nothing is sent, no cell changes, and the handler
  ends with the connection removed from \<open>active_connections\<close>. If the flag is not
  set, the turn check comes first: the connection gets \<open>"Not your turn"\<close>, stays open,
  and nothing else changes.
\<close>

theorem move_out_of_range:
  assumes "w \<in> active_connections s" and "players s w = Some p"
    and "game_board (obj s p) = Some g" and "length (board_objs s ! g) = 9"
    and "9 \<le> c \<or> c < - 9"
  shows "(is_my_turn (obj s p) \<longrightarrow>
            step s (w, Receive (Move c)) = s\<lparr>active_connections := active_connections s - {w}\<rparr>)
       \<and> (\<not> is_my_turn (obj s p) \<longrightarrow>
            step s (w, Receive (Move c)) = s\<lparr>outbox := outbox s @ [(w, Error ''Not your turn'')]\<rparr>)"
proof -
  from assms(4,5) have "py_index (board_objs s ! g) c = None"
    by (rule py_index_out_of_range)
  with assms(1-3) show ?thesis
    by (simp add: move_index_error move_not_turn disconnect_def)
qed

theorem move_out_of_range_witness:
  "2 \<in> active_connections (run session_paired) \<and> players (run session_paired) 2 = Some 1
   \<and> game_board (obj (run session_paired) 1) = Some 0
   \<and> length (board_objs (run session_paired) ! 0) = 9
   \<and> is_my_turn (obj (run session_paired) 1)
   \<and> step (run session_paired) (2, Receive (Move 9)) =
       (run session_paired)\<lparr>active_connections := active_connections (run session_paired) - {2}\<rparr>
   \<and> 1 \<in> active_connections (run session_paired) \<and> players (run session_paired) 1 = Some 0
   \<and> game_board (obj (run session_paired) 0) = Some 0
   \<and> \<not> is_my_turn (obj (run session_paired) 0)
   \<and> step (run session_paired) (1, Receive (Move (- 10))) =
       (run session_paired)\<lparr>outbox := outbox (run session_paired) @ [(1, Error ''Not your turn'')]\<rparr>"
proof -
  let ?s = "run session_paired"
  have a: "2 \<in> active_connections ?s" and b: "players ?s 2 = Some 1"
    and c: "game_board (obj ?s 1) = Some 0" and d: "length (board_objs ?s ! 0) = 9"
    and e: "is_my_turn (obj ?s 1)"
    and a': "1 \<in> active_connections ?s" and b': "players ?s 1 = Some 0"
    and c': "game_board (obj ?s 0) = Some 0" and e': "\<not> is_my_turn (obj ?s 0)"
    by (simp_all add: run_session_paired obj_def)
  have r: "(9::int) \<le> 9 \<or> (9::int) < - 9" and r': "(9::int) \<le> - 10 \<or> (- 10::int) < - 9"
    by simp_all
  from move_out_of_range [OF a b c d r] e
  have 1: "step ?s (2, Receive (Move 9)) = ?s\<lparr>active_connections := active_connections ?s - {2}\<rparr>"
    by blast
  from move_out_of_range [OF a' b' c' d r'] e'
  have 2: "step ?s (1, Receive (Move (- 10))) = ?s\<lparr>outbox := outbox ?s @ [(1, Error ''Not your turn'')]\<rparr>"
    by blast
  from a b c d e 1 a' b' c' e' 2 show ?thesis by blast
qed

text \<open>
  The claim as stated fails: for position \<open>9\<close> no \<open>error\<close> event is sent and the
  connection is closed; for position \<open>-1\<close> Python indexes from the end and cell 8 is
  written.
\<close>

theorem move_out_of_range_counterexample:
  "is_my_turn (obj (run session_paired) 1) \<and> players (run session_paired) 2 = Some 1
   \<and> outbox (step (run session_paired) (2, Receive (Move 9))) = outbox (run session_paired)
   \<and> 2 \<in> active_connections (run session_paired)
   \<and> 2 \<notin> active_connections (step (run session_paired) (2, Receive (Move 9)))
   \<and> board_objs (step (run session_paired) (2, Receive (Move (- 1)))) =
       [['' '', '' '', '' '', '' '', '' '', '' '', '' '', '' '', ''X'']]"
  by (simp add: run_session_paired obj_def) (simp add: model_defs)




section \<open>A second join on a waiting connection\<close>

text \<open>
  Claim C10. When the Player at the head of the waiting queue belongs to the connection
  that sends \<open>join\<close>, the connection is paired with itself: a new Player is created,
  the earlier Player is taken out of the queue as its opponent, the two are distinct
  objects that refer to each other, share one new board and carry the same websocket;
  the only frames sent are the two \<open>start\<close> events and \<open>turn\<close>, all on that
  connection, no \<open>error\<close> among them, and the connection stays open.
\<close>

theorem second_join_pairs_connection_with_itself:
  assumes "w \<in> active_connections s" and "waiting_players s = p # rest"
    and "p < length (player_objs s)" and "websocket (obj s p) = w"
  shows "length (player_objs (step s (w, Receive (Join nick)))) = Suc (length (player_objs s))
    \<and> nickname (obj (step s (w, Receive (Join nick))) (length (player_objs s))) = nick
    \<and> waiting_players (step s (w, Receive (Join nick))) = rest
    \<and> opponent (obj (step s (w, Receive (Join nick))) (length (player_objs s))) = Some p
    \<and> opponent (obj (step s (w, Receive (Join nick))) p) = Some (length (player_objs s))
    \<and> p \<noteq> length (player_objs s)
    \<and> websocket (obj (step s (w, Receive (Join nick))) (length (player_objs s))) = w
    \<and> websocket (obj (step s (w, Receive (Join nick))) p) = w
    \<and> game_board (obj (step s (w, Receive (Join nick))) (length (player_objs s)))
         = Some (length (board_objs s))
    \<and> game_board (obj (step s (w, Receive (Join nick))) p) = Some (length (board_objs s))
    \<and> board_objs (step s (w, Receive (Join nick))) = board_objs s @ [new_board]
    \<and> outbox (step s (w, Receive (Join nick))) =
         outbox s @ [(w, Start ''X'' (nickname (obj s p))), (w, Start ''O'' nick), (w, Turn True)]
    \<and> active_connections (step s (w, Receive (Join nick))) = active_connections s"
  using assms by (simp add: join_pairs obj_def nth_append)

theorem second_join_pairs_connection_with_itself_witness:
  "1 \<in> active_connections (run session_waiting)
   \<and> waiting_players (run session_waiting) = [0]
   \<and> websocket (obj (run session_waiting) 0) = 1
   \<and> opponent (obj (step (run session_waiting) (1, Receive (Join ''al''))) 1) = Some 0
   \<and> opponent (obj (step (run session_waiting) (1, Receive (Join ''al''))) 0) = Some 1
   \<and> websocket (obj (step (run session_waiting) (1, Receive (Join ''al''))) 1) = 1
   \<and> websocket (obj (step (run session_waiting) (1, Receive (Join ''al''))) 0) = 1
   \<and> outbox (step (run session_waiting) (1, Receive (Join ''al''))) =
        [(1, Start ''X'' ''alice''), (1, Start ''O'' ''al''), (1, Turn True)]"
proof -
  let ?s = "run session_waiting"
  have a: "1 \<in> active_connections ?s" and b: "waiting_players ?s = 0 # []"
    and c: "0 < length (player_objs ?s)" and d: "websocket (obj ?s 0) = 1"
    and e: "length (player_objs ?s) = 1" and f: "outbox ?s = []"
    and g: "nickname (obj ?s 0) = ''alice''"
    by (simp_all add: run_session_waiting obj_def)
  from second_join_pairs_connection_with_itself [OF a b c d, of "''al''"] a b d e f g
  show ?thesis by simp
qed

section \<open>The state stays well-formed\<close>

lemma invariant_active [simp]:
  "invariant (s\<lparr>active_connections := A\<rparr>) = invariant s"
  by (simp add: invariant_def paired_ok_def obj_def)

lemma invariant_outbox [simp]:
  "invariant (s\<lparr>outbox := ob\<rparr>) = invariant s"
  by (simp add: invariant_def paired_ok_def obj_def)

lemma invariant_initial: "invariant initial"
  by (simp add: invariant_def initial_def)

lemma board_ok_new: "board_ok new_board"
  by (auto simp: board_ok_def new_board_def)

lemma inv_registered:
  "invariant s \<Longrightarrow> players s w = Some p \<Longrightarrow>
   p < length (player_objs s) \<and> opponent (obj s p) \<noteq> None \<and> websocket (obj s p) = w"
  unfolding invariant_def by blast

lemma inv_paired: "invariant s \<Longrightarrow> p < length (player_objs s) \<Longrightarrow> paired_ok s p"
  unfolding invariant_def by blast

lemma inv_waiting:
  "invariant s \<Longrightarrow> p \<in> set (waiting_players s) \<Longrightarrow>
   p < length (player_objs s) \<and> opponent (obj s p) = None"
  unfolding invariant_def by blast

lemma inv_slot: "invariant s \<Longrightarrow> length (waiting_players s) \<le> 1"
  unfolding invariant_def by blast

lemma inv_boards: "invariant s \<Longrightarrow> b \<in> set (board_objs s) \<Longrightarrow> board_ok b"
  unfolding invariant_def by blast

lemma invariant_join_waits:
  assumes "invariant s" "waiting_players s = []"
  shows "invariant (fst (join w nick s))"
proof -
  let ?s' = "fst (join w nick s)"
  have eq: "?s' = s\<lparr>player_objs := player_objs s @
          [\<lparr>websocket = w, nickname = nick, symbol = [], is_my_turn = False,
            opponent = None, game_board = None\<rparr>],
       waiting_players := [length (player_objs s)]\<rparr>"
    using assms(2) by (simp add: join_waits)
  have old: "paired_ok ?s' p" if "p < length (player_objs s)" for p
  proof -
    from assms(1) that have "paired_ok s p" by (rule inv_paired)
    with that show ?thesis
      by (auto simp: eq paired_ok_def obj_def nth_append)
  qed
  have new: "paired_ok ?s' (length (player_objs s))"
    by (simp add: eq paired_ok_def obj_def)
  have 1: "\<forall>p < length (player_objs ?s'). paired_ok ?s' p"
    using old new by (auto simp: eq less_Suc_eq)
  have 2: "\<forall>p \<in> set (waiting_players ?s'). p < length (player_objs ?s') \<and> opponent (obj ?s' p) = None"
    by (simp add: eq obj_def)
  have 3: "length (waiting_players ?s') \<le> 1" by (simp add: eq)
  have 4: "p < length (player_objs ?s') \<and> opponent (obj ?s' p) \<noteq> None \<and> websocket (obj ?s' p) = v"
    if "players ?s' v = Some p" for v p
  proof -
    from that have "players s v = Some p" by (simp add: eq)
    from inv_registered [OF assms(1) this] show ?thesis
      by (simp add: eq obj_def nth_append)
  qed
  have 5: "\<forall>b \<in> set (board_objs ?s'). board_ok b"
    using assms(1) by (simp add: eq invariant_def)
  from 1 2 3 4 5 show ?thesis unfolding invariant_def by blast
qed

lemma invariant_pairing:
  assumes inv: "invariant s" and wq: "waiting_players s = opp # rest"
  shows "invariant
     (s\<lparr>player_objs :=
          (player_objs s)[opp := (player_objs s ! opp)
              \<lparr>opponent := Some (length (player_objs s)), symbol := ''O'',
               game_board := Some (length (board_objs s))\<rparr>] @
          [\<lparr>websocket = w, nickname = nick, symbol = ''X'', is_my_turn = t,
            opponent = Some opp, game_board = Some (length (board_objs s))\<rparr>],
        waiting_players := rest,
        board_objs := board_objs s @ [new_board],
        players := (players s)(w \<mapsto> length (player_objs s),
                               websocket (player_objs s ! opp) \<mapsto> opp),
        outbox := ob\<rparr>)"
proof -
  let ?n = "length (player_objs s)"
  let ?g = "length (board_objs s)"
  define s' where "s' = s\<lparr>player_objs :=
          (player_objs s)[opp := (player_objs s ! opp)
              \<lparr>opponent := Some ?n, symbol := ''O'', game_board := Some ?g\<rparr>] @
          [\<lparr>websocket = w, nickname = nick, symbol = ''X'', is_my_turn = t,
            opponent = Some opp, game_board = Some ?g\<rparr>],
        waiting_players := rest,
        board_objs := board_objs s @ [new_board],
        players := (players s)(w \<mapsto> ?n, websocket (player_objs s ! opp) \<mapsto> opp),
        outbox := ob\<rparr>"
  from inv_waiting [OF inv, of opp] wq
  have opp: "opp < ?n" and free: "opponent (player_objs s ! opp) = None"
    by (simp_all add: obj_def)
  from inv_slot [OF inv] wq have rest: "rest = []" by simp
  from inv_paired [OF inv opp] free
  have opp_turn: "\<not> is_my_turn (player_objs s ! opp)"
    by (simp add: paired_ok_def obj_def)
  have len: "length (player_objs s') = Suc ?n" by (simp add: s'_def)
  have new_obj: "player_objs s' ! ?n =
      \<lparr>websocket = w, nickname = nick, symbol = ''X'', is_my_turn = t,
       opponent = Some opp, game_board = Some ?g\<rparr>"
    by (simp add: s'_def nth_append)
  have opp_obj: "player_objs s' ! opp = (player_objs s ! opp)
              \<lparr>opponent := Some ?n, symbol := ''O'', game_board := Some ?g\<rparr>"
    using opp by (simp add: s'_def nth_append)
  have other_obj: "player_objs s' ! p = player_objs s ! p" if "p < ?n" "p \<noteq> opp" for p
    using that by (simp add: s'_def nth_append)
  have boards: "board_objs s' = board_objs s @ [new_board]" by (simp add: s'_def)
  have p_new: "paired_ok s' ?n"
    using opp opp_turn by (simp add: paired_ok_def obj_def new_obj opp_obj len boards)
  have p_opp: "paired_ok s' opp"
    using opp opp_turn by (simp add: paired_ok_def obj_def new_obj opp_obj len boards)
  have p_other: "paired_ok s' p" if "p < ?n" "p \<noteq> opp" for p
  proof -
    from inv_paired [OF inv that(1)] have ok: "paired_ok s p" .
    show ?thesis
    proof (cases "opponent (player_objs s ! p)")
      case None
      with ok that show ?thesis
        by (simp add: paired_ok_def obj_def other_obj)
    next
      case (Some q)
      with ok have q: "q < ?n" "q \<noteq> p" "opponent (player_objs s ! q) = Some p"
        by (simp_all add: paired_ok_def obj_def)
      with free have "q \<noteq> opp" by auto
      with q ok Some that show ?thesis
        by (auto simp: paired_ok_def obj_def other_obj len boards)
    qed
  qed
  have 1: "\<forall>p < length (player_objs s'). paired_ok s' p"
    using p_new p_opp p_other by (auto simp: len less_Suc_eq)
  have 2: "\<forall>p \<in> set (waiting_players s'). p < length (player_objs s') \<and> opponent (obj s' p) = None"
    by (simp add: s'_def rest)
  have 3: "length (waiting_players s') \<le> 1" by (simp add: s'_def rest)
  have 4: "p < length (player_objs s') \<and> opponent (obj s' p) \<noteq> None \<and> websocket (obj s' p) = v"
    if reg: "players s' v = Some p" for v p
  proof -
    have pl: "players s' = (players s)(w \<mapsto> ?n, websocket (player_objs s ! opp) \<mapsto> opp)"
      by (simp add: s'_def)
    from reg have sel: "(if v = websocket (player_objs s ! opp) then Some opp
            else if v = w then Some ?n else players s v) = Some p"
      unfolding pl by (simp add: fun_upd_def)
    have "(v = websocket (player_objs s ! opp) \<and> p = opp)
        \<or> (v = w \<and> p = ?n) \<or> players s v = Some p"
    proof (cases "v = websocket (player_objs s ! opp)")
      case True
      with sel show ?thesis by simp
    next
      case False
      with sel show ?thesis by (cases "v = w") simp_all
    qed
    then consider (a) "v = websocket (player_objs s ! opp)" "p = opp"
      | (b) "v = w" "p = ?n" | (c) "players s v = Some p"
      by blast
    then show ?thesis
    proof cases
      case a
      with opp show ?thesis by (simp add: obj_def opp_obj len)
    next
      case b
      then show ?thesis by (simp add: obj_def new_obj len)
    next
      case c
      from inv_registered [OF inv c]
      have r: "p < ?n" "opponent (player_objs s ! p) \<noteq> None" "websocket (player_objs s ! p) = v"
        by (simp_all add: obj_def)
      with free have "p \<noteq> opp" by auto
      with r show ?thesis by (simp add: obj_def other_obj len)
    qed
  qed
  have 5: "\<forall>b \<in> set (board_objs s'). board_ok b"
    using inv board_ok_new by (simp add: boards invariant_def)
  from 1 2 3 4 5 have "invariant s'" unfolding invariant_def by blast
  then show ?thesis by (simp add: s'_def)
qed

lemma invariant_join_pairs:
  assumes inv: "invariant s" and wq: "waiting_players s = opp # rest"
    and w: "w \<in> active_connections s"
  shows "invariant (fst (join w nick s))"
proof -
  from inv_waiting [OF inv, of opp] wq have opp: "opp < length (player_objs s)" by simp
  show ?thesis
  proof (cases "websocket (player_objs s ! opp) \<in> active_connections s")
    case True
    show ?thesis
      unfolding join_pairs [OF wq opp w True] fst_conv
      using inv wq by (rule invariant_pairing)
  next
    case False
    show ?thesis
      unfolding join_pairs_closed [OF wq opp w False] fst_conv
      using inv wq by (rule invariant_pairing)
  qed
qed

lemma invariant_join:
  "invariant s \<Longrightarrow> w \<in> active_connections s \<Longrightarrow> invariant (fst (join w nick s))"
  by (cases "waiting_players s") (auto intro: invariant_join_waits invariant_join_pairs)

lemma py_index_bound: "py_index xs c = Some i \<Longrightarrow> i < length xs"
  by (auto simp: py_index_def split: if_splits)

lemma board_ok_update:
  "board_ok b \<Longrightarrow> m = ''X'' \<or> m = ''O'' \<Longrightarrow> board_ok (b[i := m])"
proof -
  assume ok: "board_ok b" and m: "m = ''X'' \<or> m = ''O''"
  have "set (b[i := m]) \<subseteq> insert m (set b)" by (rule set_update_subset_insert)
  with ok m show ?thesis by (auto simp: board_ok_def)
qed

lemma invariant_board_update:
  assumes "invariant s" and "board_ok b"
  shows "invariant (s\<lparr>board_objs := (board_objs s)[g := b]\<rparr>)"
proof -
  let ?s' = "s\<lparr>board_objs := (board_objs s)[g := b]\<rparr>"
  have po: "paired_ok ?s' p = paired_ok s p" for p
    by (simp add: paired_ok_def obj_def)
  have "set ((board_objs s)[g := b]) \<subseteq> insert b (set (board_objs s))"
    by (rule set_update_subset_insert)
  with assms have 5: "\<forall>x \<in> set (board_objs ?s'). board_ok x"
    by (auto simp: invariant_def)
  from assms(1) have "(\<forall>p < length (player_objs s). paired_ok s p)
   \<and> (\<forall>p \<in> set (waiting_players s). p < length (player_objs s) \<and> opponent (obj s p) = None)
   \<and> length (waiting_players s) \<le> 1
   \<and> (\<forall>w p. players s w = Some p \<longrightarrow>
         p < length (player_objs s) \<and> opponent (obj s p) \<noteq> None \<and> websocket (obj s p) = w)"
    unfolding invariant_def by blast
  with 5 show ?thesis
    unfolding invariant_def by (simp add: po obj_def)
qed

lemma invariant_toggle:
  assumes inv: "invariant s" and p: "p < length (player_objs s)"
    and q: "opponent (obj s p) = Some q" and turn: "is_my_turn (obj s p)"
  shows "invariant (s\<lparr>player_objs := (player_objs s)
           [p := (obj s p)\<lparr>is_my_turn := False\<rparr>, q := (obj s q)\<lparr>is_my_turn := True\<rparr>]\<rparr>)"
proof -
  let ?s' = "s\<lparr>player_objs := (player_objs s)
           [p := (obj s p)\<lparr>is_my_turn := False\<rparr>, q := (obj s q)\<lparr>is_my_turn := True\<rparr>]\<rparr>"
  from inv_paired [OF inv p] q
  have qf: "q < length (player_objs s)" "q \<noteq> p" "opponent (obj s q) = Some p"
    "\<not> (is_my_turn (obj s p) \<and> is_my_turn (obj s q))"
    by (simp_all add: paired_ok_def)
  have len: "length (player_objs ?s') = length (player_objs s)" by simp
  have at_p: "obj ?s' p = (obj s p)\<lparr>is_my_turn := False\<rparr>"
    using p qf by (simp add: obj_def)
  have at_q: "obj ?s' q = (obj s q)\<lparr>is_my_turn := True\<rparr>"
    using p qf by (simp add: obj_def)
  have at_r: "obj ?s' r = obj s r" if "r \<noteq> p" "r \<noteq> q" for r
    using that by (simp add: obj_def)
  have opp_eq: "opponent (obj ?s' r) = opponent (obj s r)" for r
    using qf(2) by (cases "r = p"; cases "r = q") (simp_all add: at_p at_q at_r)
  have ws_eq: "websocket (obj ?s' r) = websocket (obj s r)" for r
    using qf(2) by (cases "r = p"; cases "r = q") (simp_all add: at_p at_q at_r)
  have sym_eq: "symbol (obj ?s' r) = symbol (obj s r)" for r
    using qf(2) by (cases "r = p"; cases "r = q") (simp_all add: at_p at_q at_r)
  have gb_eq: "game_board (obj ?s' r) = game_board (obj s r)" for r
    using qf(2) by (cases "r = p"; cases "r = q") (simp_all add: at_p at_q at_r)
  have bl: "board_objs ?s' = board_objs s" by simp
  have po: "paired_ok ?s' r" if r: "r < length (player_objs s)" for r
  proof -
    from inv_paired [OF inv r] have ok: "paired_ok s r" .
    consider (p) "r = p" | (q) "r = q" | (o) "r \<noteq> p" "r \<noteq> q" by blast
    then show ?thesis
    proof cases
      case p
      with ok q qf show ?thesis
        unfolding paired_ok_def opp_eq sym_eq gb_eq len bl
        by (simp add: at_p at_q)
    next
      case q
      with ok qf \<open>opponent (obj s p) = Some q\<close> show ?thesis
        unfolding paired_ok_def opp_eq sym_eq gb_eq len bl
        by (simp add: at_p at_q)
    next
      case o
      show ?thesis
      proof (cases "opponent (obj s r)")
        case None
        with ok o show ?thesis
          unfolding paired_ok_def opp_eq sym_eq gb_eq len bl
          by (simp add: at_r)
      next
        case (Some t)
        with ok have t: "opponent (obj s t) = Some r" by (simp add: paired_ok_def)
        with q qf o have "t \<noteq> p" "t \<noteq> q" by auto
        with ok o Some show ?thesis
          unfolding paired_ok_def opp_eq sym_eq gb_eq len bl
          by (simp add: at_r)
      qed
    qed
  qed
  from inv have rest: "(\<forall>p \<in> set (waiting_players s). p < length (player_objs s) \<and> opponent (obj s p) = None)
   \<and> length (waiting_players s) \<le> 1
   \<and> (\<forall>w p. players s w = Some p \<longrightarrow>
         p < length (player_objs s) \<and> opponent (obj s p) \<noteq> None \<and> websocket (obj s p) = w)
   \<and> (\<forall>b \<in> set (board_objs s). board_ok b)"
    unfolding invariant_def by blast
  have wp: "waiting_players ?s' = waiting_players s" and pl: "players ?s' = players s"
    by simp_all
  from po rest show ?thesis
    unfolding invariant_def opp_eq ws_eq len bl wp pl by blast
qed

lemma registered_facts:
  assumes inv: "invariant s" and reg: "players s w = Some p"
  obtains q g where "p < length (player_objs s)" "q < length (player_objs s)" "q \<noteq> p"
    "opponent (obj s p) = Some q" "opponent (obj s q) = Some p"
    "\<not> (is_my_turn (obj s p) \<and> is_my_turn (obj s q))"
    "symbol (obj s p) = ''X'' \<or> symbol (obj s p) = ''O''"
    "g < length (board_objs s)" "game_board (obj s p) = Some g" "game_board (obj s q) = Some g"
    "board_ok (board_objs s ! g)" "websocket (obj s p) = w"
proof -
  from inv_registered [OF inv reg]
  have p: "p < length (player_objs s)" and "opponent (obj s p) \<noteq> None"
    and ws: "websocket (obj s p) = w" by simp_all
  then obtain q where q: "opponent (obj s p) = Some q" by auto
  from inv_paired [OF inv p] q obtain g where
    f: "q < length (player_objs s)" "q \<noteq> p" "opponent (obj s q) = Some p"
      "\<not> (is_my_turn (obj s p) \<and> is_my_turn (obj s q))"
      "symbol (obj s p) = ''X'' \<or> symbol (obj s p) = ''O''"
      "g < length (board_objs s)" "game_board (obj s p) = Some g" "game_board (obj s q) = Some g"
    unfolding paired_ok_def by blast
  from f(6) have "board_objs s ! g \<in> set (board_objs s)" by simp
  from inv_boards [OF inv this] have "board_ok (board_objs s ! g)" .
  with p q f ws show ?thesis by (rule_tac that)
qed

lemma invariant_move:
  assumes inv: "invariant s" and w: "w \<in> active_connections s"
  shows "invariant (fst (move w c s))"
proof (cases "players s w")
  case None
  with inv show ?thesis by (simp add: move_unregistered)
next
  case (Some p)
  from registered_facts [OF inv Some] obtain q g where
    f: "p < length (player_objs s)" "q < length (player_objs s)" "q \<noteq> p"
    "opponent (obj s p) = Some q" "opponent (obj s q) = Some p"
    "\<not> (is_my_turn (obj s p) \<and> is_my_turn (obj s q))"
    "symbol (obj s p) = ''X'' \<or> symbol (obj s p) = ''O''"
    "g < length (board_objs s)" "game_board (obj s p) = Some g" "game_board (obj s q) = Some g"
    "board_ok (board_objs s ! g)" "websocket (obj s p) = w" .
  show ?thesis
  proof (cases "is_my_turn (obj s p)")
    case False
    with inv w Some show ?thesis by (simp add: move_not_turn)
  next
    case turn: True
    show ?thesis
    proof (cases "py_index (board_objs s ! g) c")
      case None
      with inv Some turn f(9) show ?thesis by (simp add: move_index_error)
    next
      case (Some i)
      show ?thesis
      proof (cases "board_objs s ! g ! i = '' ''")
        case False
        with inv w \<open>players s w = Some p\<close> turn f(9) Some show ?thesis
          by (simp add: move_occupied)
      next
        case empty: True
        let ?b = "(board_objs s ! g)[i := symbol (obj s p)]"
        from f(11) f(7) have bok: "board_ok ?b" by (rule board_ok_update)
        from inv bok have inv1: "invariant (s\<lparr>board_objs := (board_objs s)[g := ?b]\<rparr>)"
          by (rule invariant_board_update)
        from w f(12) have pw: "websocket (obj s p) \<in> active_connections s" by simp
        show ?thesis
        proof (cases "websocket (obj s q) \<in> active_connections s")
          case False
          from move_cut_short [OF \<open>players s w = Some p\<close> turn f(9) Some empty f(4) pw False]
            inv1 show ?thesis by simp
        next
          case qw: True
          show ?thesis
          proof (cases "truthy (get_winner ?b)")
            case True
            then obtain r where r: "get_winner ?b = Some r" "r \<noteq> []"
              by (auto simp: truthy_def split: option.splits)
            from move_gameover [OF \<open>players s w = Some p\<close> turn f(9) Some empty f(4) f(8) r
                pw qw]
              inv1 show ?thesis by simp
          next
            case False
            note eq = move_continues [OF \<open>players s w = Some p\<close> turn f(9) Some empty f(4)
                f(8) False f(1) f(2) f(3) [symmetric] pw qw]
            let ?s1 = "s\<lparr>board_objs := (board_objs s)[g := ?b]\<rparr>"
            have "invariant (?s1\<lparr>player_objs := (player_objs ?s1)
              [p := (obj ?s1 p)\<lparr>is_my_turn := False\<rparr>,
               q := (obj ?s1 q)\<lparr>is_my_turn := True\<rparr>]\<rparr>)"
              using inv1 f(1) f(4) turn by (intro invariant_toggle) (simp_all add: obj_def)
            then show ?thesis by (simp add: eq obj_def)
          qed
        qed
      qed
    qed
  qed
qed

lemma invariant_step: "invariant s \<Longrightarrow> invariant (step s ev)"
proof -
  assume inv: "invariant s"
  obtain w i where ev: "ev = (w, i)" by (cases ev)
  show ?thesis
  proof (cases i)
    case Connect
    with inv ev show ?thesis by (simp add: connect_def)
  next
    case Disconnect
    with inv ev show ?thesis by (simp add: disconnect_def)
  next
    case (Receive m)
    show ?thesis
    proof (cases "w \<in> active_connections s")
      case False
      with inv ev Receive show ?thesis by simp
    next
      case True
      have "invariant (fst (receive w m s))"
      proof (cases m)
        case (Join nick)
        with inv True show ?thesis by (simp add: invariant_join)
      next
        case (Move c)
        with inv True show ?thesis by (simp add: invariant_move)
      next
        case (Unknown t)
        with inv True show ?thesis by (simp add: send_defs)
      qed
      with ev Receive True show ?thesis
        by (cases "receive w m s") (auto simp: disconnect_def split: option.splits)
    qed
  qed
qed

lemma invariant_foldl: "invariant s \<Longrightarrow> invariant (foldl step s evs)"
  by (induction evs arbitrary: s) (simp_all add: invariant_step)

lemma invariant_run: "invariant (run evs)"
  unfolding run_def by (rule invariant_foldl) (rule invariant_initial)

section \<open>The registry\<close>

lemma players_send [simp]: "players (fst (send w e s)) = players s"
  by (simp add: send_def)

lemma players_then_do:
  assumes "players (fst r) = m" and "\<And>s. players s = m \<Longrightarrow> players (fst (f s)) = m"
  shows "players (fst (then_do r f)) = m"
  using assms by (cases r) (auto simp: then_do_def split: option.splits)

lemma players_move: "players (fst (move w c s)) = players s"
  unfolding move_def Let_def send_error_def send_move_def send_gameover_def send_turn_def
  by (auto split: option.splits sum.splits intro!: players_then_do simp: assign_def)

lemma players_then_do_same:
  "(\<And>t. players (fst (f t)) = players t) \<Longrightarrow> players (fst (then_do r f)) = players (fst r)"
  by (cases r) (auto simp: then_do_def split: option.splits)

lemma players_join_pairs:
  "waiting_players s = opp # rest \<Longrightarrow>
   \<exists>k. players (fst (join w nick s)) = (players s)(w \<mapsto> length (player_objs s), k \<mapsto> opp)"
  by (simp add: join_def Let_def send_start_def send_turn_def players_then_do_same assign_def)
     (rule exI, rule refl)

lemma players_join_dom: "dom (players s) \<subseteq> dom (players (fst (join w nick s)))"
proof (cases "waiting_players s")
  case Nil
  then show ?thesis by (simp add: join_waits)
next
  case (Cons opp rest)
  from players_join_pairs [OF this, of w nick] obtain k where
    "players (fst (join w nick s)) = (players s)(w \<mapsto> length (player_objs s), k \<mapsto> opp)" ..
  then show ?thesis by auto
qed

lemma players_step_dom: "dom (players s) \<subseteq> dom (players (step s ev))"
proof -
  obtain w i where ev: "ev = (w, i)" by (cases ev)
  show ?thesis
  proof (cases i)
    case Connect
    with ev show ?thesis by (simp add: connect_def)
  next
    case Disconnect
    with ev show ?thesis by (simp add: disconnect_def)
  next
    case (Receive m)
    have "dom (players s) \<subseteq> dom (players (fst (receive w m s)))"
    proof (cases m)
      case (Join nick)
      then show ?thesis by (simp add: players_join_dom)
    next
      case (Move c)
      then show ?thesis by (simp add: players_move)
    next
      case (Unknown t)
      then show ?thesis by (simp add: send_message_def)
    qed
    with ev Receive show ?thesis
      by (cases "receive w m s") (auto simp: disconnect_def split: option.splits)
  qed
qed

lemma players_step_receive:
  "players (step s (w, Receive m)) =
     (if w \<in> active_connections s then players (fst (receive w m s)) else players s)"
  by (cases "receive w m s") (auto simp: disconnect_def split: option.splits)

lemma players_foldl_dom: "dom (players s) \<subseteq> dom (players (foldl step s evs))"
proof (induction evs arbitrary: s)
  case Nil
  show ?case by simp
next
  case (Cons ev evs)
  have "dom (players s) \<subseteq> dom (players (step s ev))" by (rule players_step_dom)
  also have "\<dots> \<subseteq> dom (players (foldl step (step s ev) evs))" by (rule Cons.IH)
  finally show ?case by simp
qed

text \<open>
  Claim C9, as amended. \<open>players\<close> is a dictionary, so each connection has at most one
  entry. A \<open>join\<close> that finds the queue empty creates no entry; a \<open>join\<close> that finds
  a waiting Player writes two entries, one for the joining connection and one for the
  connection of the waiting Player; connecting, disconnecting, a \<open>move\<close> and a message
  of unknown type leave the dictionary as it is, also when the handler ends with an
  exception. So no input removes an entry: a connection that has an entry keeps one
  after every further sequence of inputs.
\<close>

theorem registry_entries:
  "(w \<in> active_connections s \<and> waiting_players s = [] \<longrightarrow>
      players (step s (w, Receive (Join nick))) = players s)
   \<and> (w \<in> active_connections s \<and> waiting_players s = opp # rest
        \<and> opp < length (player_objs s) \<longrightarrow>
      players (step s (w, Receive (Join nick))) =
        (players s)(w \<mapsto> length (player_objs s), websocket (obj s opp) \<mapsto> opp))
   \<and> players (step s (w, Disconnect)) = players s
   \<and> players (step s (w, Connect)) = players s
   \<and> players (step s (w, Receive (Move c))) = players s
   \<and> players (step s (w, Receive (Unknown t))) = players s
   \<and> dom (players s) \<subseteq> dom (players (step s ev))
   \<and> dom (players (run evs)) \<subseteq> dom (players (run (evs @ later)))"
proof -
  have 1: "players (step s (w, Receive (Join nick))) = players s"
    if "w \<in> active_connections s" "waiting_players s = []"
    using that by (simp add: join_waits)
  have 2: "players (step s (w, Receive (Join nick))) =
        (players s)(w \<mapsto> length (player_objs s), websocket (obj s opp) \<mapsto> opp)"
    if w: "w \<in> active_connections s" and wq: "waiting_players s = opp # rest"
      and opp: "opp < length (player_objs s)"
  proof (cases "websocket (player_objs s ! opp) \<in> active_connections s")
    case True
    with w show ?thesis by (simp add: join_pairs [OF wq opp w True] obj_def)
  next
    case False
    with w show ?thesis
      by (simp add: join_pairs_closed [OF wq opp w False] obj_def disconnect_def)
  qed
  have 3: "players (step s (w, Disconnect)) = players s"
    by (simp add: disconnect_def)
  have 4: "players (step s (w, Connect)) = players s"
    by (simp add: connect_def)
  have 5: "players (step s (w, Receive (Move c))) = players s"
    unfolding players_step_receive by (simp add: players_move)
  have 6: "players (step s (w, Receive (Unknown t))) = players s"
    unfolding players_step_receive by (simp add: send_message_def)
  have 7: "dom (players s) \<subseteq> dom (players (step s ev))"
    by (rule players_step_dom)
  have "run (evs @ later) = foldl step (run evs) later" by (simp add: run_def)
  then have 8: "dom (players (run evs)) \<subseteq> dom (players (run (evs @ later)))"
    by (simp add: players_foldl_dom)
  from 1 2 3 4 5 6 7 8 show ?thesis by blast
qed

theorem registry_entries_witness:
  "1 \<in> active_connections (run [(1, Connect)]) \<and> waiting_players (run [(1, Connect)]) = []
   \<and> players (step (run [(1, Connect)]) (1, Receive (Join ''alice''))) = players (run [(1, Connect)])
   \<and> 2 \<in> active_connections (run (session_waiting @ [(2, Connect)]))
   \<and> waiting_players (run (session_waiting @ [(2, Connect)])) = [0]
   \<and> players (step (run (session_waiting @ [(2, Connect)])) (2, Receive (Join ''bob'')))
       = [2 \<mapsto> 1, 1 \<mapsto> 0]"
proof -
  let ?c = "run [(1, Connect)]"
  let ?s = "run (session_waiting @ [(2, Connect)])"
  have a: "1 \<in> active_connections ?c" and b: "waiting_players ?c = []"
    by (simp_all add: run_def initial_def connect_def)
  have c: "2 \<in> active_connections ?s" and d: "waiting_players ?s = 0 # []"
    and e: "0 < length (player_objs ?s)" and f: "length (player_objs ?s) = 1"
    and g: "websocket (obj ?s 0) = 1" and h: "players ?s = Map.empty"
    by (simp_all add: run_session_waiting_2 obj_def)
  note t1 = registry_entries [where w = 1 and s = ?c and nick = "''alice''",
      THEN conjunct1, rule_format]
  note t2 = registry_entries [where w = 2 and s = ?s and opp = 0 and rest = "[]"
      and nick = "''bob''", THEN conjunct2, THEN conjunct1, rule_format]
  from a b have 1: "players (step ?c (1, Receive (Join ''alice''))) = players ?c"
    by (intro t1) simp
  from c d e have "players (step ?s (2, Receive (Join ''bob''))) =
        (players ?s)(2 \<mapsto> length (player_objs ?s), websocket (obj ?s 0) \<mapsto> 0)"
    by (intro t2) simp
  with f g h have 2: "players (step ?s (2, Receive (Join ''bob''))) = [2 \<mapsto> 1, 1 \<mapsto> 0]"
    by simp
  from d have d': "waiting_players ?s = [0]" by simp
  show ?thesis by (intro conjI a b 1 c d' 2)
qed

text \<open>
  The claim as stated fails: connection 1 has no entry after its \<open>join\<close> was
  processed, and it still has its entry after it disconnected.
\<close>

theorem registry_entries_counterexample:
  "players (run session_waiting) 1 = None
   \<and> 1 \<notin> active_connections (run (session_paired @ [(1, Disconnect)]))
   \<and> players (run (session_paired @ [(1, Disconnect)])) 1 = Some 0"
  by (simp add: run_session_waiting run_snoc run_session_paired disconnect_def)

section \<open>Whose turn it is\<close>

lemma same_turn_same: "player_objs s' = player_objs s \<Longrightarrow> same_turn s s'"
  by (simp add: same_turn_def obj_def)

lemma same_turn_trans: "same_turn s s' \<Longrightarrow> same_turn s' s'' \<Longrightarrow> same_turn s s''"
  unfolding same_turn_def by (meson le_trans less_le_trans)

lemma inv_opponent:
  assumes "invariant s" and "p < length (player_objs s)" and "opponent (obj s p) = Some q"
  shows "q < length (player_objs s) \<and> q \<noteq> p \<and> opponent (obj s q) = Some p
         \<and> \<not> (is_my_turn (obj s p) \<and> is_my_turn (obj s q))"
  using inv_paired [OF assms(1,2)] assms(3) by (simp add: paired_ok_def)

lemma same_turn_join_waits:
  assumes inv: "invariant s" and wq: "waiting_players s = []"
  shows "same_turn s (fst (join w nick s))"
proof -
  have "opponent (obj (fst (join w nick s)) p) = Some q
        \<and> ((is_my_turn (obj (fst (join w nick s)) p) \<or> is_my_turn (obj (fst (join w nick s)) q))
            = (is_my_turn (obj s p) \<or> is_my_turn (obj s q)))"
    if p: "p < length (player_objs s)" and q: "opponent (obj s p) = Some q" for p q
  proof -
    from inv_opponent [OF inv p q] have "q < length (player_objs s)" by simp
    with p q show ?thesis by (simp add: join_waits [OF wq] obj_def nth_append)
  qed
  then show ?thesis by (simp add: same_turn_def join_waits [OF wq])
qed

lemma same_turn_pairing:
  assumes inv: "invariant s" and wq: "waiting_players s = opp # rest"
  shows "same_turn s
     (s\<lparr>player_objs :=
          (player_objs s)[opp := (player_objs s ! opp)
              \<lparr>opponent := Some (length (player_objs s)), symbol := ''O'',
               game_board := Some (length (board_objs s))\<rparr>] @
          [\<lparr>websocket = w, nickname = nick, symbol = ''X'', is_my_turn = t,
            opponent = Some opp, game_board = Some (length (board_objs s))\<rparr>],
        waiting_players := rest,
        board_objs := board_objs s @ [new_board],
        players := (players s)(w \<mapsto> length (player_objs s),
                               websocket (player_objs s ! opp) \<mapsto> opp),
        outbox := ob\<rparr>)"
proof -
  define objs where "objs = (player_objs s)[opp := (player_objs s ! opp)
              \<lparr>opponent := Some (length (player_objs s)), symbol := ''O'',
               game_board := Some (length (board_objs s))\<rparr>] @
          [\<lparr>websocket = w, nickname = nick, symbol = ''X'', is_my_turn = t,
            opponent = Some opp, game_board = Some (length (board_objs s))\<rparr>]"
  from inv_waiting [OF inv, of opp] wq
  have opp: "opp < length (player_objs s)" and free: "opponent (obj s opp) = None"
    by simp_all
  have other: "objs ! r = player_objs s ! r" if "r < length (player_objs s)" "r \<noteq> opp" for r
    using that by (simp add: objs_def nth_append)
  have "opponent (objs ! p) = Some q
        \<and> ((is_my_turn (objs ! p) \<or> is_my_turn (objs ! q))
            = (is_my_turn (obj s p) \<or> is_my_turn (obj s q)))"
    if p: "p < length (player_objs s)" and q: "opponent (obj s p) = Some q" for p q
  proof -
    from inv_opponent [OF inv p q]
    have qf: "q < length (player_objs s)" "opponent (obj s q) = Some p" by simp_all
    from q free have "p \<noteq> opp" by auto
    moreover from qf(2) free have "q \<noteq> opp" by auto
    ultimately show ?thesis using p q qf(1) by (simp add: other obj_def)
  qed
  moreover have "length (player_objs s) \<le> length objs" by (simp add: objs_def)
  ultimately have "same_turn s (s\<lparr>player_objs := objs, waiting_players := rest,
        board_objs := board_objs s @ [new_board],
        players := (players s)(w \<mapsto> length (player_objs s),
                               websocket (player_objs s ! opp) \<mapsto> opp),
        outbox := ob\<rparr>)"
    by (simp add: same_turn_def obj_def)
  then show ?thesis by (simp add: objs_def)
qed

lemma same_turn_join:
  assumes inv: "invariant s" and w: "w \<in> active_connections s"
  shows "same_turn s (fst (join w nick s))"
proof (cases "waiting_players s")
  case Nil
  with inv show ?thesis by (rule same_turn_join_waits)
next
  case (Cons opp rest)
  from inv_waiting [OF inv, of opp] Cons have opp: "opp < length (player_objs s)" by simp
  show ?thesis
  proof (cases "websocket (player_objs s ! opp) \<in> active_connections s")
    case True
    show ?thesis
      unfolding join_pairs [OF Cons opp w True] fst_conv
      using inv Cons by (rule same_turn_pairing)
  next
    case False
    show ?thesis
      unfolding join_pairs_closed [OF Cons opp w False] fst_conv
      using inv Cons by (rule same_turn_pairing)
  qed
qed

lemma same_turn_toggle:
  assumes inv: "invariant s" and p: "p < length (player_objs s)"
    and q: "opponent (obj s p) = Some q" and turn: "is_my_turn (obj s p)"
  shows "same_turn s (s\<lparr>board_objs := bs, player_objs := (player_objs s)
           [p := (obj s p)\<lparr>is_my_turn := False\<rparr>, q := (obj s q)\<lparr>is_my_turn := True\<rparr>],
           outbox := ob\<rparr>)"
proof -
  define objs where "objs = (player_objs s)
           [p := (obj s p)\<lparr>is_my_turn := False\<rparr>, q := (obj s q)\<lparr>is_my_turn := True\<rparr>]"
  from inv_opponent [OF inv p q]
  have qf: "q < length (player_objs s)" "q \<noteq> p" "opponent (obj s q) = Some p" by simp_all
  have at_p: "objs ! p = (obj s p)\<lparr>is_my_turn := False\<rparr>"
    using p qf by (simp add: objs_def)
  have at_q: "objs ! q = (obj s q)\<lparr>is_my_turn := True\<rparr>"
    using p qf by (simp add: objs_def)
  have at_r: "objs ! r = obj s r" if "r \<noteq> p" "r \<noteq> q" for r
    using that by (simp add: objs_def obj_def)
  have "opponent (objs ! r) = Some u
        \<and> ((is_my_turn (objs ! r) \<or> is_my_turn (objs ! u))
            = (is_my_turn (obj s r) \<or> is_my_turn (obj s u)))"
    if r: "r < length (player_objs s)" and u: "opponent (obj s r) = Some u" for r u
  proof -
    from inv_opponent [OF inv r u] have uf: "opponent (obj s u) = Some r" by simp
    consider (p) "r = p" | (q) "r = q" | (o) "r \<noteq> p" "r \<noteq> q" by blast
    then show ?thesis
    proof cases
      case p
      with u q have "u = q" by simp
      with p q turn show ?thesis by (simp add: at_p at_q)
    next
      case q
      with u qf have "u = p" by simp
      with q qf turn show ?thesis by (simp add: at_p at_q)
    next
      case o
      from uf q qf o have "u \<noteq> p" "u \<noteq> q" by auto
      with o u show ?thesis by (simp add: at_r)
    qed
  qed
  moreover have "length objs = length (player_objs s)" by (simp add: objs_def)
  ultimately have "same_turn s (s\<lparr>board_objs := bs, player_objs := objs, outbox := ob\<rparr>)"
    by (simp add: same_turn_def obj_def)
  then show ?thesis by (simp add: objs_def)
qed

lemma same_turn_move:
  assumes inv: "invariant s" and w: "w \<in> active_connections s"
  shows "same_turn s (fst (move w c s))"
proof (cases "players s w")
  case None
  then show ?thesis by (simp add: move_unregistered same_turn_same)
next
  case (Some p)
  from registered_facts [OF inv Some] obtain q g where
    f: "p < length (player_objs s)" "q < length (player_objs s)" "q \<noteq> p"
    "opponent (obj s p) = Some q" "opponent (obj s q) = Some p"
    "\<not> (is_my_turn (obj s p) \<and> is_my_turn (obj s q))"
    "symbol (obj s p) = ''X'' \<or> symbol (obj s p) = ''O''"
    "g < length (board_objs s)" "game_board (obj s p) = Some g" "game_board (obj s q) = Some g"
    "board_ok (board_objs s ! g)" "websocket (obj s p) = w" .
  show ?thesis
  proof (cases "is_my_turn (obj s p)")
    case False
    with Some w show ?thesis by (simp add: move_not_turn same_turn_same)
  next
    case turn: True
    show ?thesis
    proof (cases "py_index (board_objs s ! g) c")
      case None
      with Some turn f(9) show ?thesis by (simp add: move_index_error same_turn_same)
    next
      case (Some i)
      show ?thesis
      proof (cases "board_objs s ! g ! i = '' ''")
        case False
        with \<open>players s w = Some p\<close> w turn f(9) Some show ?thesis
          by (simp add: move_occupied same_turn_same)
      next
        case empty: True
        let ?b = "(board_objs s ! g)[i := symbol (obj s p)]"
        from w f(12) have pw: "websocket (obj s p) \<in> active_connections s" by simp
        show ?thesis
        proof (cases "websocket (obj s q) \<in> active_connections s")
          case False
          from move_cut_short [OF \<open>players s w = Some p\<close> turn f(9) Some empty f(4) pw False]
          show ?thesis by (simp add: same_turn_same)
        next
          case qw: True
          show ?thesis
          proof (cases "truthy (get_winner ?b)")
            case True
            then obtain r where r: "get_winner ?b = Some r" "r \<noteq> []"
              by (auto simp: truthy_def split: option.splits)
            from move_gameover [OF \<open>players s w = Some p\<close> turn f(9) Some empty f(4) f(8) r
                pw qw]
            show ?thesis by (simp add: same_turn_same)
          next
            case False
            note eq = move_continues [OF \<open>players s w = Some p\<close> turn f(9) Some empty f(4)
                f(8) False f(1) f(2) f(3) [symmetric] pw qw]
            show ?thesis
              unfolding eq fst_conv
              using inv f(1) f(4) turn by (rule same_turn_toggle)
          qed
        qed
      qed
    qed
  qed
qed

lemma same_turn_step:
  assumes inv: "invariant s"
  shows "same_turn s (step s ev)"
proof -
  obtain w i where ev: "ev = (w, i)" by (cases ev)
  show ?thesis
  proof (cases i)
    case Connect
    with ev show ?thesis by (simp add: connect_def same_turn_same)
  next
    case Disconnect
    with ev show ?thesis by (simp add: disconnect_def same_turn_same)
  next
    case (Receive m)
    show ?thesis
    proof (cases "w \<in> active_connections s")
      case False
      with ev Receive show ?thesis by (simp add: same_turn_same)
    next
      case True
      have k: "same_turn s (fst (receive w m s))"
      proof (cases m)
        case (Join nick)
        with same_turn_join [OF inv True] show ?thesis by simp
      next
        case (Move c)
        with same_turn_move [OF inv True] show ?thesis by simp
      next
        case (Unknown t)
        with True show ?thesis by (simp add: send_defs same_turn_same)
      qed
      have "same_turn s (s'\<lparr>active_connections := A\<rparr>) = same_turn s s'" for s' A
        by (simp add: same_turn_def obj_def)
      with k ev Receive True show ?thesis
        by (cases "receive w m s") (auto simp: disconnect_def split: option.splits)
    qed
  qed
qed

lemma same_turn_foldl: "invariant s \<Longrightarrow> same_turn s (foldl step s evs)"
proof (induction evs arbitrary: s)
  case Nil
  show ?case by (simp add: same_turn_same)
next
  case (Cons ev evs)
  from Cons.prems have "same_turn s (step s ev)" by (rule same_turn_step)
  moreover from Cons.prems have "same_turn (step s ev) (foldl step (step s ev) evs)"
    by (intro Cons.IH invariant_step)
  ultimately show ?case by (auto intro: same_turn_trans)
qed

lemma run_session_waiting_closed:
  "run (session_waiting @ [(1, Disconnect), (2, Connect)]) =
     \<lparr>active_connections = {2}, waiting_players = [0], players = Map.empty,
      player_objs = [\<lparr>websocket = 1, nickname = ''alice'', symbol = [], is_my_turn = False,
                      opponent = None, game_board = None\<rparr>],
      board_objs = [], outbox = []\<rparr>"
  unfolding run_def foldl_append
  unfolding run_def [symmetric] run_session_waiting
  by (simp add: connect_def disconnect_def)

text \<open>
  Claim C6, as amended. After every sequence of inputs, each handled to its end, and for
  every Player that has an opponent: the opponent is another Player whose opponent it
  is, and the two never both have the turn flag set. After any further inputs the two
  are still opponents, and one of them has the flag exactly when one of them had it
  before: a match in which one Player holds the turn keeps exactly one holder through
  every accepted move, and a match in which neither holds it stays so. A match start
  at which the connection of the waiting Player is open sets the flag of the joining
  Player and not that of the waiting one; a match start at which that connection is
  closed sets neither flag.
\<close>

theorem turn_exclusive:
  "(\<forall>p < length (player_objs (run evs)). \<forall>q. opponent (obj (run evs) p) = Some q \<longrightarrow>
      q < length (player_objs (run evs)) \<and> q \<noteq> p \<and> opponent (obj (run evs) q) = Some p
      \<and> \<not> (is_my_turn (obj (run evs) p) \<and> is_my_turn (obj (run evs) q))
      \<and> opponent (obj (run (evs @ later)) p) = Some q
      \<and> ((is_my_turn (obj (run (evs @ later)) p) \<or> is_my_turn (obj (run (evs @ later)) q))
           = (is_my_turn (obj (run evs) p) \<or> is_my_turn (obj (run evs) q))))
   \<and> (w \<in> active_connections (run evs) \<and> waiting_players (run evs) = opp # rest
        \<and> websocket (obj (run evs) opp) \<in> active_connections (run evs) \<longrightarrow>
      opponent (obj (step (run evs) (w, Receive (Join nick))) opp)
        = Some (length (player_objs (run evs)))
      \<and> is_my_turn (obj (step (run evs) (w, Receive (Join nick))) (length (player_objs (run evs))))
      \<and> \<not> is_my_turn (obj (step (run evs) (w, Receive (Join nick))) opp))
   \<and> (w \<in> active_connections (run evs) \<and> waiting_players (run evs) = opp # rest
        \<and> websocket (obj (run evs) opp) \<notin> active_connections (run evs) \<longrightarrow>
      opponent (obj (step (run evs) (w, Receive (Join nick))) opp)
        = Some (length (player_objs (run evs)))
      \<and> \<not> is_my_turn (obj (step (run evs) (w, Receive (Join nick))) (length (player_objs (run evs))))
      \<and> \<not> is_my_turn (obj (step (run evs) (w, Receive (Join nick))) opp))"
proof -
  let ?s = "run evs" and ?s' = "run (evs @ later)"
  have inv: "invariant ?s" by (rule invariant_run)
  have "?s' = foldl step ?s later" by (simp add: run_def)
  with same_turn_foldl [OF inv, of later] have st: "same_turn ?s ?s'" by simp
  have 1: "q < length (player_objs ?s) \<and> q \<noteq> p \<and> opponent (obj ?s q) = Some p
      \<and> \<not> (is_my_turn (obj ?s p) \<and> is_my_turn (obj ?s q))
      \<and> opponent (obj ?s' p) = Some q
      \<and> ((is_my_turn (obj ?s' p) \<or> is_my_turn (obj ?s' q))
           = (is_my_turn (obj ?s p) \<or> is_my_turn (obj ?s q)))"
    if p: "p < length (player_objs ?s)" and q: "opponent (obj ?s p) = Some q" for p q
  proof -
    note a = inv_opponent [OF inv p q]
    from st p q have "opponent (obj ?s' p) = Some q
      \<and> ((is_my_turn (obj ?s' p) \<or> is_my_turn (obj ?s' q))
           = (is_my_turn (obj ?s p) \<or> is_my_turn (obj ?s q)))"
      unfolding same_turn_def by blast
    with a show ?thesis by blast
  qed
  have 2: "opponent (obj (step ?s (w, Receive (Join nick))) opp) = Some (length (player_objs ?s))
      \<and> is_my_turn (obj (step ?s (w, Receive (Join nick))) (length (player_objs ?s)))
      \<and> \<not> is_my_turn (obj (step ?s (w, Receive (Join nick))) opp)"
    if w: "w \<in> active_connections ?s" and wq: "waiting_players ?s = opp # rest"
      and ow: "websocket (obj ?s opp) \<in> active_connections ?s"
  proof -
    from inv_waiting [OF inv, of opp] wq
    have opp: "opp < length (player_objs ?s)" and free: "opponent (obj ?s opp) = None"
      by simp_all
    from inv_paired [OF inv opp] free have nt: "\<not> is_my_turn (player_objs ?s ! opp)"
      by (simp add: paired_ok_def obj_def)
    from ow have ow': "websocket (player_objs ?s ! opp) \<in> active_connections ?s"
      by (simp add: obj_def)
    from w opp nt show ?thesis
      by (simp add: join_pairs [OF wq opp w ow'] obj_def nth_append)
  qed
  have 3: "opponent (obj (step ?s (w, Receive (Join nick))) opp) = Some (length (player_objs ?s))
      \<and> \<not> is_my_turn (obj (step ?s (w, Receive (Join nick))) (length (player_objs ?s)))
      \<and> \<not> is_my_turn (obj (step ?s (w, Receive (Join nick))) opp)"
    if w: "w \<in> active_connections ?s" and wq: "waiting_players ?s = opp # rest"
      and ow: "websocket (obj ?s opp) \<notin> active_connections ?s"
  proof -
    from inv_waiting [OF inv, of opp] wq
    have opp: "opp < length (player_objs ?s)" and free: "opponent (obj ?s opp) = None"
      by simp_all
    from inv_paired [OF inv opp] free have nt: "\<not> is_my_turn (player_objs ?s ! opp)"
      by (simp add: paired_ok_def obj_def)
    from ow have ow': "websocket (player_objs ?s ! opp) \<notin> active_connections ?s"
      by (simp add: obj_def)
    from w opp nt show ?thesis
      by (simp add: join_pairs_closed [OF wq opp w ow'] obj_def nth_append disconnect_def)
  qed
  from 1 2 3 show ?thesis by blast
qed

theorem turn_exclusive_witness:
  "0 < length (player_objs (run session_paired))
   \<and> opponent (obj (run session_paired) 0) = Some 1
   \<and> opponent (obj (run session_paired) 1) = Some 0
   \<and> is_my_turn (obj (run session_paired) 1)
   \<and> \<not> is_my_turn (obj (run session_paired) 0)
   \<and> opponent (obj (run (session_paired @ [(2, Receive (Move 0))])) 0) = Some 1
   \<and> is_my_turn (obj (run (session_paired @ [(2, Receive (Move 0))])) 0)
   \<and> \<not> is_my_turn (obj (run (session_paired @ [(2, Receive (Move 0))])) 1)
   \<and> 2 \<in> active_connections (run (session_waiting @ [(2, Connect)]))
   \<and> waiting_players (run (session_waiting @ [(2, Connect)])) = [0]
   \<and> websocket (obj (run (session_waiting @ [(2, Connect)])) 0)
        \<in> active_connections (run (session_waiting @ [(2, Connect)]))
   \<and> is_my_turn (obj (step (run (session_waiting @ [(2, Connect)])) (2, Receive (Join ''bob''))) 1)
   \<and> \<not> is_my_turn (obj (step (run (session_waiting @ [(2, Connect)])) (2, Receive (Join ''bob''))) 0)
   \<and> 2 \<in> active_connections (run (session_waiting @ [(1, Disconnect), (2, Connect)]))
   \<and> waiting_players (run (session_waiting @ [(1, Disconnect), (2, Connect)])) = [0]
   \<and> websocket (obj (run (session_waiting @ [(1, Disconnect), (2, Connect)])) 0)
        \<notin> active_connections (run (session_waiting @ [(1, Disconnect), (2, Connect)]))
   \<and> \<not> is_my_turn (obj (step (run (session_waiting @ [(1, Disconnect), (2, Connect)]))
                            (2, Receive (Join ''bob''))) 1)
   \<and> \<not> is_my_turn (obj (step (run (session_waiting @ [(1, Disconnect), (2, Connect)]))
                            (2, Receive (Join ''bob''))) 0)"
proof -
  let ?s = "run session_paired" and ?s' = "run (session_paired @ [(2, Receive (Move 0))])"
  let ?c = "run (session_waiting @ [(1, Disconnect), (2, Connect)])"
  let ?j = "run (session_waiting @ [(2, Connect)])"
  have a: "0 < length (player_objs ?s)" and b: "opponent (obj ?s 0) = Some 1"
    and c: "is_my_turn (obj ?s 1)"
    by (simp_all add: run_session_paired obj_def)
  have d: "is_my_turn (obj ?s' 0)"
    by (simp add: run_session_first_move obj_def)
  note t = turn_exclusive [where evs = session_paired and later = "[(2, Receive (Move 0))]",
      THEN conjunct1, rule_format, OF a b]
  from t have 1: "opponent (obj ?s 1) = Some 0"
    and 2: "\<not> (is_my_turn (obj ?s 0) \<and> is_my_turn (obj ?s 1))"
    and 3: "opponent (obj ?s' 0) = Some 1" by simp_all
  from 2 c have 4: "\<not> is_my_turn (obj ?s 0)" by simp
  note u = turn_exclusive [where evs = "session_paired @ [(2, Receive (Move 0))]"
      and later = "[]", THEN conjunct1, rule_format]
  have a': "0 < length (player_objs ?s')"
    by (simp add: run_session_first_move)
  from u [OF a' 3] have "\<not> (is_my_turn (obj ?s' 0) \<and> is_my_turn (obj ?s' 1))" by simp
  with d have 5: "\<not> is_my_turn (obj ?s' 1)" by simp
  have e: "2 \<in> active_connections ?j" and f: "waiting_players ?j = 0 # []"
    and g: "websocket (obj ?j 0) \<in> active_connections ?j"
    and h: "length (player_objs ?j) = 1"
    by (simp_all add: run_session_waiting_2 obj_def)
  note v = turn_exclusive [where evs = "session_waiting @ [(2, Connect)]" and w = 2
      and opp = 0 and rest = "[]" and nick = "''bob''", THEN conjunct2, THEN conjunct1,
      rule_format]
  from e f g have "is_my_turn (obj (step ?j (2, Receive (Join ''bob''))) (length (player_objs ?j)))
      \<and> \<not> is_my_turn (obj (step ?j (2, Receive (Join ''bob''))) 0)"
    using v by blast
  with h have 6: "is_my_turn (obj (step ?j (2, Receive (Join ''bob''))) 1)"
    and 7: "\<not> is_my_turn (obj (step ?j (2, Receive (Join ''bob''))) 0)" by simp_all
  from f have f': "waiting_players ?j = [0]" by simp
  have k: "2 \<in> active_connections ?c" and l: "waiting_players ?c = 0 # []"
    and m: "websocket (obj ?c 0) \<notin> active_connections ?c"
    and n: "length (player_objs ?c) = 1"
    unfolding run_session_waiting_closed by (simp_all add: obj_def)
  note x = turn_exclusive [where evs = "session_waiting @ [(1, Disconnect), (2, Connect)]"
      and w = 2 and opp = 0 and rest = "[]" and nick = "''bob''",
      THEN conjunct2, THEN conjunct2, rule_format]
  from k l m have "\<not> is_my_turn (obj (step ?c (2, Receive (Join ''bob''))) (length (player_objs ?c)))
      \<and> \<not> is_my_turn (obj (step ?c (2, Receive (Join ''bob''))) 0)"
    using x by blast
  with n have 8: "\<not> is_my_turn (obj (step ?c (2, Receive (Join ''bob''))) 1)"
    and 9: "\<not> is_my_turn (obj (step ?c (2, Receive (Join ''bob''))) 0)" by simp_all
  from l have l': "waiting_players ?c = [0]" by simp
  show ?thesis by (intro conjI a b 1 c 4 3 d 5 e f' g 6 7 k l' m 8 9)
qed

text \<open>
  The claim as stated fails: alice disconnects while waiting, bob joins and is paired
  with her; the \<open>start\<close> event for alice cannot be sent, so line 138 is not reached.
  The two are opponents of each other on a board without result, and neither has the
  turn flag.
\<close>

theorem turn_exclusive_counterexample:
  "opponent (obj (run session_left) 0) = Some 1
   \<and> opponent (obj (run session_left) 1) = Some 0
   \<and> game_board (obj (run session_left) 0) = Some 0
   \<and> game_board (obj (run session_left) 1) = Some 0
   \<and> get_winner (board_objs (run session_left) ! 0) = None
   \<and> \<not> is_my_turn (obj (run session_left) 0)
   \<and> \<not> is_my_turn (obj (run session_left) 1)"
  by (simp add: run_session_left obj_def)
     (simp add: get_winner_def won_def winning_combinations_def is_draw_def)

section \<open>Match start\<close>

text \<open>
  Claim C1, as amended. When \<open>join\<close> arrives on an open connection while a Player is
  waiting, the newly joined Player gets symbol \<open>"X"\<close>, the Player that was waiting
  gets \<open>"O"\<close>, and the two become opponents of each other. If the connection of the
  waiting Player is still open, the joining Player gets the turn flag and the flag of
  the waiting Player stays false, each connection is sent \<open>start\<close> with its own symbol
  and the nickname of the other, and the joining connection, the one of \<open>"X"\<close>, is
  then sent \<open>turn\<close> with value true; the waiting Player is sent no \<open>turn\<close> event.
  If the connection of the waiting Player is closed, only the \<open>start\<close> event of the
  joining Player is sent: the next send raises, no turn flag is set, and the joining
  connection is closed.
\<close>

theorem match_start:
  assumes "w \<in> active_connections (run evs)" and "waiting_players (run evs) = opp # rest"
  shows "symbol (obj (step (run evs) (w, Receive (Join nick))) (length (player_objs (run evs)))) = ''X''
    \<and> websocket (obj (step (run evs) (w, Receive (Join nick))) (length (player_objs (run evs)))) = w
    \<and> nickname (obj (step (run evs) (w, Receive (Join nick))) (length (player_objs (run evs)))) = nick
    \<and> symbol (obj (step (run evs) (w, Receive (Join nick))) opp) = ''O''
    \<and> \<not> is_my_turn (obj (step (run evs) (w, Receive (Join nick))) opp)
    \<and> opponent (obj (step (run evs) (w, Receive (Join nick))) opp)
         = Some (length (player_objs (run evs)))
    \<and> opponent (obj (step (run evs) (w, Receive (Join nick))) (length (player_objs (run evs))))
         = Some opp
    \<and> (websocket (obj (run evs) opp) \<in> active_connections (run evs) \<longrightarrow>
          is_my_turn (obj (step (run evs) (w, Receive (Join nick))) (length (player_objs (run evs))))
        \<and> outbox (step (run evs) (w, Receive (Join nick))) =
             outbox (run evs) @
               [(w, Start ''X'' (nickname (obj (run evs) opp))),
                (websocket (obj (run evs) opp), Start ''O'' nick),
                (w, Turn True)]
        \<and> active_connections (step (run evs) (w, Receive (Join nick)))
             = active_connections (run evs))
    \<and> (websocket (obj (run evs) opp) \<notin> active_connections (run evs) \<longrightarrow>
          \<not> is_my_turn (obj (step (run evs) (w, Receive (Join nick))) (length (player_objs (run evs))))
        \<and> outbox (step (run evs) (w, Receive (Join nick))) =
             outbox (run evs) @ [(w, Start ''X'' (nickname (obj (run evs) opp)))]
        \<and> active_connections (step (run evs) (w, Receive (Join nick)))
             = active_connections (run evs) - {w})"
proof -
  let ?s = "run evs"
  have inv: "invariant ?s" by (rule invariant_run)
  from inv_waiting [OF inv, of opp] assms(2)
  have opp: "opp < length (player_objs ?s)" and free: "opponent (obj ?s opp) = None"
    by simp_all
  from inv_paired [OF inv opp] free have nt: "\<not> is_my_turn (player_objs ?s ! opp)"
    by (simp add: paired_ok_def obj_def)
  show ?thesis
  proof (cases "websocket (player_objs ?s ! opp) \<in> active_connections ?s")
    case True
    with assms(1) opp nt show ?thesis
      by (simp add: join_pairs [OF assms(2) opp assms(1) True] obj_def nth_append)
  next
    case False
    with assms(1) opp nt show ?thesis
      by (simp add: join_pairs_closed [OF assms(2) opp assms(1) False] obj_def nth_append
          disconnect_def)
  qed
qed

theorem match_start_witness:
  "2 \<in> active_connections (run (session_waiting @ [(2, Connect)]))
   \<and> waiting_players (run (session_waiting @ [(2, Connect)])) = [0]
   \<and> nickname (obj (run (session_waiting @ [(2, Connect)])) 0) = ''alice''
   \<and> websocket (obj (run (session_waiting @ [(2, Connect)])) 0)
        \<in> active_connections (run (session_waiting @ [(2, Connect)]))
   \<and> symbol (obj (step (run (session_waiting @ [(2, Connect)])) (2, Receive (Join ''bob''))) 1) = ''X''
   \<and> symbol (obj (step (run (session_waiting @ [(2, Connect)])) (2, Receive (Join ''bob''))) 0) = ''O''
   \<and> is_my_turn (obj (step (run (session_waiting @ [(2, Connect)])) (2, Receive (Join ''bob''))) 1)
   \<and> outbox (step (run (session_waiting @ [(2, Connect)])) (2, Receive (Join ''bob''))) =
        [(2, Start ''X'' ''alice''), (1, Start ''O'' ''bob''), (2, Turn True)]
   \<and> 2 \<in> active_connections (run (session_waiting @ [(1, Disconnect), (2, Connect)]))
   \<and> waiting_players (run (session_waiting @ [(1, Disconnect), (2, Connect)])) = [0]
   \<and> websocket (obj (run (session_waiting @ [(1, Disconnect), (2, Connect)])) 0)
        \<notin> active_connections (run (session_waiting @ [(1, Disconnect), (2, Connect)]))
   \<and> \<not> is_my_turn (obj (step (run (session_waiting @ [(1, Disconnect), (2, Connect)]))
                            (2, Receive (Join ''bob''))) 1)
   \<and> outbox (step (run (session_waiting @ [(1, Disconnect), (2, Connect)]))
               (2, Receive (Join ''bob''))) = [(2, Start ''X'' ''alice'')]
   \<and> active_connections (step (run (session_waiting @ [(1, Disconnect), (2, Connect)]))
               (2, Receive (Join ''bob''))) = {}"
proof -
  let ?s = "run (session_waiting @ [(2, Connect)])"
  let ?c = "run (session_waiting @ [(1, Disconnect), (2, Connect)])"
  have a: "2 \<in> active_connections ?s" and b: "waiting_players ?s = 0 # []"
    and c: "nickname (obj ?s 0) = ''alice''" and d: "websocket (obj ?s 0) \<in> active_connections ?s"
    and e: "length (player_objs ?s) = 1" and f: "outbox ?s = []"
    by (simp_all add: run_session_waiting_2 obj_def)
  have a': "2 \<in> active_connections ?c" and b': "waiting_players ?c = 0 # []"
    and c': "nickname (obj ?c 0) = ''alice''"
    and d': "websocket (obj ?c 0) \<notin> active_connections ?c"
    and e': "length (player_objs ?c) = 1" and f': "outbox ?c = []"
    and g': "active_connections ?c - {2} = {}"
    unfolding run_session_waiting_closed by (simp_all add: obj_def)
  from match_start [OF a b, of "''bob''"] c d e f
  have 1: "symbol (obj (step ?s (2, Receive (Join ''bob''))) 1) = ''X''"
    and 2: "symbol (obj (step ?s (2, Receive (Join ''bob''))) 0) = ''O''"
    and 3: "is_my_turn (obj (step ?s (2, Receive (Join ''bob''))) 1)"
    and 4: "outbox (step ?s (2, Receive (Join ''bob''))) =
        [(2, Start ''X'' ''alice''), (websocket (obj ?s 0), Start ''O'' ''bob''), (2, Turn True)]"
    by simp_all
  have ws: "websocket (obj ?s 0) = 1" by (simp add: run_session_waiting_2 obj_def)
  from match_start [OF a' b', of "''bob''"] c' d' e' f' g'
  have 5: "\<not> is_my_turn (obj (step ?c (2, Receive (Join ''bob''))) 1)"
    and 6: "outbox (step ?c (2, Receive (Join ''bob''))) = [(2, Start ''X'' ''alice'')]"
    and 7: "active_connections (step ?c (2, Receive (Join ''bob''))) = {}"
    by simp_all
  from b have b2: "waiting_players ?s = [0]" by simp
  from b' have b2': "waiting_players ?c = [0]" by simp
  show ?thesis
    by (intro conjI a b2 c d 1 2 3 4 [unfolded ws] a' b2' d' 5 6 7)
qed

text \<open>
  The claim as stated fails: alice, who was waiting, gets \<open>"O"\<close> and no \<open>turn\<close>
  event, and bob, who joined second, gets \<open>"X"\<close>.
\<close>

theorem match_start_counterexample:
  "nickname (obj (run session_waiting) 0) = ''alice''
   \<and> waiting_players (run session_waiting) = [0]
   \<and> symbol (obj (run session_paired) 0) = ''O''
   \<and> \<not> is_my_turn (obj (run session_paired) 0)
   \<and> symbol (obj (run session_paired) 1) = ''X''
   \<and> nickname (obj (run session_paired) 1) = ''bob''
   \<and> outbox (run session_paired) =
        [(2, Start ''X'' ''alice''), (1, Start ''O'' ''bob''), (2, Turn True)]"
  by (simp add: run_session_waiting run_session_paired obj_def)

section \<open>After the game is over\<close>

lemma run_session_won:
  "run session_won =
     \<lparr>active_connections = {1, 2}, waiting_players = [],
      players = [2 \<mapsto> 1, 1 \<mapsto> 0],
      player_objs = [\<lparr>websocket = 1, nickname = ''alice'', symbol = ''O'', is_my_turn = False,
                      opponent = Some 1, game_board = Some 0\<rparr>,
                     \<lparr>websocket = 2, nickname = ''bob'', symbol = ''X'', is_my_turn = True,
                      opponent = Some 0, game_board = Some 0\<rparr>],
      board_objs = [[''X'', ''X'', ''X'', ''O'', ''O'', '' '', '' '', '' '', '' '']],
      outbox = [(2, Start ''X'' ''alice''), (1, Start ''O'' ''bob''), (2, Turn True),
                (2, MoveEvent 0 ''X''), (1, MoveEvent 0 ''X''), (2, Turn False), (1, Turn True),
                (1, MoveEvent 3 ''O''), (2, MoveEvent 3 ''O''), (1, Turn False), (2, Turn True),
                (2, MoveEvent 1 ''X''), (1, MoveEvent 1 ''X''), (2, Turn False), (1, Turn True),
                (1, MoveEvent 4 ''O''), (2, MoveEvent 4 ''O''), (1, Turn False), (2, Turn True),
                (2, MoveEvent 2 ''X''), (1, MoveEvent 2 ''X''),
                (2, Gameover ''X''), (1, Gameover ''X'')]\<rparr>"
  unfolding session_won_def run_def foldl_append
  unfolding run_def [symmetric] run_session_paired
  by (simp add: model_defs)

lemma won_update:
  assumes "won b c" and "b ! i = '' ''"
  shows "won (b[i := m]) c"
proof -
  from assms have "c ! 0 \<noteq> i" "c ! 1 \<noteq> i" "c ! 2 \<noteq> i"
    by (auto simp: won_def)
  with assms(1) show ?thesis by (simp add: won_def)
qed

lemma scan_some: "scan b cs = Some r \<Longrightarrow> \<exists>c \<in> set cs. won b c \<and> r = b ! (c ! 0)"
  by (induction cs) (auto split: if_splits)

lemma combination_first_cell: "c \<in> set winning_combinations \<Longrightarrow> c ! 0 < 9"
  by (auto simp: winning_combinations_def)

lemma truthy_update:
  assumes ok: "board_ok b" and fin: "truthy (get_winner b)" and i: "i < length b"
    and empty: "b ! i = '' ''" and m: "m = ''X'' \<or> m = ''O''"
  shows "truthy (get_winner (b[i := m]))"
proof -
  let ?b = "b[i := m]"
  from i empty have "\<not> is_draw b"
    by (auto simp: is_draw_def list_all_iff dest: nth_mem)
  with fin obtain r where "scan b winning_combinations = Some r"
    by (auto simp: truthy_def get_winner_def split: option.splits if_splits)
  then obtain c where c: "c \<in> set winning_combinations" "won b c"
    by (auto dest: scan_some)
  from c(2) empty have "won ?b c" by (rule won_update)
  with c(1) have "scan ?b winning_combinations \<noteq> None" by (auto simp: scan_none)
  then obtain r' where r': "scan ?b winning_combinations = Some r'" by auto
  then obtain c' where c': "c' \<in> set winning_combinations" "r' = ?b ! (c' ! 0)"
    by (auto dest: scan_some)
  from ok m have ok': "board_ok ?b" by (rule board_ok_update)
  from c'(1) have "c' ! 0 < 9" by (rule combination_first_cell)
  with ok' have "?b ! (c' ! 0) \<in> set ?b" by (simp add: board_ok_def)
  with ok' c'(2) have "r' \<noteq> []" by (auto simp: board_ok_def)
  with r' show ?thesis by (simp add: truthy_def get_winner_def)
qed

lemma keeps_same:
  assumes "g < length (board_objs s)" "finished s g"
    and "player_objs s' = player_objs s" "board_objs s' = board_objs s"
  shows "keeps g s s'"
  using assms by (simp add: keeps_def finished_def obj_def)

lemma keeps_trans: "keeps g s s' \<Longrightarrow> keeps g s' s'' \<Longrightarrow> keeps g s s''"
  unfolding keeps_def by (meson le_trans less_le_trans)

lemma keeps_pairing:
  assumes inv: "invariant s" and g: "g < length (board_objs s)" and fin: "finished s g"
    and wq: "waiting_players s = opp # rest"
  shows "keeps g s
     (s\<lparr>player_objs :=
          (player_objs s)[opp := (player_objs s ! opp)
              \<lparr>opponent := Some (length (player_objs s)), symbol := ''O'',
               game_board := Some (length (board_objs s))\<rparr>] @
          [\<lparr>websocket = w, nickname = nick, symbol = ''X'', is_my_turn = t,
            opponent = Some opp, game_board = Some (length (board_objs s))\<rparr>],
        waiting_players := rest,
        board_objs := board_objs s @ [new_board],
        players := (players s)(w \<mapsto> length (player_objs s),
                               websocket (player_objs s ! opp) \<mapsto> opp),
        outbox := ob\<rparr>)"
proof -
  from inv_waiting [OF inv, of opp] wq
  have opp: "opp < length (player_objs s)" and free: "opponent (obj s opp) = None"
    by simp_all
  from inv_paired [OF inv opp] free have nb: "game_board (player_objs s ! opp) = None"
    by (simp add: paired_ok_def obj_def)
  have "p \<noteq> opp" if "game_board (obj s p) = Some g" for p
    using that nb by (auto simp: obj_def)
  with g fin opp show ?thesis
    by (auto simp: keeps_def finished_def obj_def nth_append nth_list_update)
qed

lemma keeps_join:
  assumes inv: "invariant s" and g: "g < length (board_objs s)" and fin: "finished s g"
    and w: "w \<in> active_connections s"
  shows "keeps g s (fst (join w nick s))"
proof (cases "waiting_players s")
  case Nil
  with g fin show ?thesis
    by (simp add: join_waits keeps_def finished_def obj_def nth_append)
next
  case (Cons opp rest)
  from inv_waiting [OF inv, of opp] Cons have opp: "opp < length (player_objs s)" by simp
  show ?thesis
  proof (cases "websocket (player_objs s ! opp) \<in> active_connections s")
    case True
    show ?thesis
      unfolding join_pairs [OF Cons opp w True] fst_conv
      using inv g fin Cons by (rule keeps_pairing)
  next
    case False
    show ?thesis
      unfolding join_pairs_closed [OF Cons opp w False] fst_conv
      using inv g fin Cons by (rule keeps_pairing)
  qed
qed

lemma keeps_move:
  assumes inv: "invariant s" and g: "g < length (board_objs s)" and fin: "finished s g"
    and w: "w \<in> active_connections s"
  shows "keeps g s (fst (move w c s))"
proof (cases "players s w")
  case None
  with g fin show ?thesis by (simp add: move_unregistered keeps_same)
next
  case (Some p)
  from registered_facts [OF inv Some] obtain q h where
    f: "p < length (player_objs s)" "q < length (player_objs s)" "q \<noteq> p"
    "opponent (obj s p) = Some q" "opponent (obj s q) = Some p"
    "\<not> (is_my_turn (obj s p) \<and> is_my_turn (obj s q))"
    "symbol (obj s p) = ''X'' \<or> symbol (obj s p) = ''O''"
    "h < length (board_objs s)" "game_board (obj s p) = Some h" "game_board (obj s q) = Some h"
    "board_ok (board_objs s ! h)" "websocket (obj s p) = w" .
  show ?thesis
  proof (cases "is_my_turn (obj s p)")
    case False
    with Some w g fin show ?thesis by (simp add: move_not_turn keeps_same)
  next
    case turn: True
    show ?thesis
    proof (cases "py_index (board_objs s ! h) c")
      case None
      with Some turn f(9) g fin show ?thesis by (simp add: move_index_error keeps_same)
    next
      case (Some i)
      from Some have i: "i < length (board_objs s ! h)" by (rule py_index_bound)
      show ?thesis
      proof (cases "board_objs s ! h ! i = '' ''")
        case False
        with \<open>players s w = Some p\<close> w turn f(9) Some g fin show ?thesis
          by (simp add: move_occupied keeps_same)
      next
        case empty: True
        let ?b = "(board_objs s ! h)[i := symbol (obj s p)]"
        have fin': "truthy (get_winner ((board_objs s)[h := ?b] ! g))"
        proof (cases "h = g")
          case True
          with fin have "truthy (get_winner (board_objs s ! h))" by (simp add: finished_def)
          from truthy_update [OF f(11) this i empty f(7)] True g show ?thesis by simp
        next
          case False
          with fin show ?thesis by (simp add: finished_def)
        qed
        from w f(12) have pw: "websocket (obj s p) \<in> active_connections s" by simp
        show ?thesis
        proof (cases "websocket (obj s q) \<in> active_connections s")
          case False
          from move_cut_short [OF \<open>players s w = Some p\<close> turn f(9) Some empty f(4) pw False]
            g fin' show ?thesis
            by (simp add: keeps_def finished_def obj_def)
        next
          case qw: True
          show ?thesis
          proof (cases "truthy (get_winner ?b)")
            case True
            then obtain r where r: "get_winner ?b = Some r" "r \<noteq> []"
              by (auto simp: truthy_def split: option.splits)
            from move_gameover [OF \<open>players s w = Some p\<close> turn f(9) Some empty f(4) f(8) r
                pw qw]
              g fin' show ?thesis
              by (simp add: keeps_def finished_def obj_def)
          next
            case False
            with fin' f(8) have hg: "h \<noteq> g" by auto
            note eq = move_continues [OF \<open>players s w = Some p\<close> turn f(9) Some empty f(4)
                f(8) False f(1) f(2) f(3) [symmetric] pw qw]
            have "is_my_turn (obj (fst (move w c s)) r) = is_my_turn (obj s r)
                \<and> game_board (obj (fst (move w c s)) r) = Some g"
              if "r < length (player_objs s)" "game_board (obj s r) = Some g" for r
            proof -
              from that(2) f(9) f(10) hg have "r \<noteq> p" "r \<noteq> q" by auto
              with that show ?thesis by (simp add: eq obj_def)
            qed
            with g fin' show ?thesis
              by (simp add: keeps_def finished_def eq)
          qed
        qed
      qed
    qed
  qed
qed

lemma keeps_step:
  assumes inv: "invariant s" and g: "g < length (board_objs s)" and fin: "finished s g"
  shows "keeps g s (step s ev)"
proof -
  obtain w i where ev: "ev = (w, i)" by (cases ev)
  show ?thesis
  proof (cases i)
    case Connect
    with ev g fin show ?thesis by (simp add: connect_def keeps_same)
  next
    case Disconnect
    with ev g fin show ?thesis by (simp add: disconnect_def keeps_same)
  next
    case (Receive m)
    show ?thesis
    proof (cases "w \<in> active_connections s")
      case False
      with ev Receive g fin show ?thesis by (simp add: keeps_same)
    next
      case True
      have k: "keeps g s (fst (receive w m s))"
      proof (cases m)
        case (Join nick)
        with keeps_join [OF inv g fin True] show ?thesis by simp
      next
        case (Move c)
        with keeps_move [OF inv g fin True] show ?thesis by simp
      next
        case (Unknown t)
        with g fin True show ?thesis by (simp add: send_defs keeps_same)
      qed
      have "keeps g s (s'\<lparr>active_connections := A\<rparr>) = keeps g s s'" for s' A
        by (simp add: keeps_def finished_def obj_def)
      with k ev Receive True show ?thesis
        by (cases "receive w m s") (auto simp: disconnect_def split: option.splits)
    qed
  qed
qed

lemma keeps_foldl:
  "invariant s \<Longrightarrow> g < length (board_objs s) \<Longrightarrow> finished s g \<Longrightarrow> keeps g s (foldl step s evs)"
proof (induction evs arbitrary: s)
  case Nil
  then show ?case by (simp add: keeps_same)
next
  case (Cons ev evs)
  from Cons.prems have k: "keeps g s (step s ev)" by (rule keeps_step)
  then have "g < length (board_objs (step s ev))" "finished (step s ev) g"
    by (simp_all add: keeps_def)
  with Cons.prems(1) have "keeps g (step s ev) (foldl step (step s ev) evs)"
    by (intro Cons.IH invariant_step)
  with k show ?case by (auto intro: keeps_trans)
qed

lemma run_session_won_again:
  "run (session_won @ [(2, Receive (Move 5))]) =
     (run session_won)
       \<lparr>board_objs := [[''X'', ''X'', ''X'', ''O'', ''O'', ''X'', '' '', '' '', '' '']],
        outbox := outbox (run session_won) @
          [(2, MoveEvent 5 ''X''), (1, MoveEvent 5 ''X''),
           (2, Gameover ''X''), (1, Gameover ''X'')]\<rparr>"
  by (simp add: run_snoc run_session_won) (simp add: model_defs)

lemma session_won_finished: "finished (run session_won) 0"
  unfolding run_session_won finished_def
  by (simp add: get_winner_def won_def winning_combinations_def truthy_def)

text \<open>
  Claim C2, as amended. Once the board of a match is finished (a win or a draw has been
  detected, so \<open>gameover\<close> was sent), it stays finished after any further inputs and
  no turn toggle occurs: both Players keep the turn flag they had. From then on a
  \<open>move\<close> by the Player whose flag is false changes nothing and is answered with
  \<open>"Not your turn"\<close> on the acting connection, and a \<open>move\<close> by the Player whose
  flag is true on an occupied cell changes nothing and is answered with
  \<open>"Invalid move"\<close>.
\<close>

theorem finished_match_stays_finished:
  assumes "g < length (board_objs (run evs))" and "finished (run evs) g"
  shows "finished (run (evs @ later)) g
    \<and> (\<forall>p < length (player_objs (run evs)). game_board (obj (run evs) p) = Some g \<longrightarrow>
          is_my_turn (obj (run (evs @ later)) p) = is_my_turn (obj (run evs) p)
          \<and> game_board (obj (run (evs @ later)) p) = Some g)
    \<and> (\<forall>w p. w \<in> active_connections (run (evs @ later)) \<and> players (run (evs @ later)) w = Some p
           \<and> game_board (obj (run (evs @ later)) p) = Some g
           \<and> \<not> is_my_turn (obj (run (evs @ later)) p) \<longrightarrow>
          step (run (evs @ later)) (w, Receive (Move c)) =
            (run (evs @ later))\<lparr>outbox := outbox (run (evs @ later)) @ [(w, Error ''Not your turn'')]\<rparr>)
    \<and> (\<forall>w p i. w \<in> active_connections (run (evs @ later)) \<and> players (run (evs @ later)) w = Some p
           \<and> game_board (obj (run (evs @ later)) p) = Some g
           \<and> is_my_turn (obj (run (evs @ later)) p)
           \<and> py_index (board_objs (run (evs @ later)) ! g) c = Some i
           \<and> board_objs (run (evs @ later)) ! g ! i \<noteq> '' '' \<longrightarrow>
          step (run (evs @ later)) (w, Receive (Move c)) =
            (run (evs @ later))\<lparr>outbox := outbox (run (evs @ later)) @ [(w, Error ''Invalid move'')]\<rparr>)"
proof -
  let ?s = "run evs" and ?s' = "run (evs @ later)"
  have "?s' = foldl step ?s later" by (simp add: run_def)
  with keeps_foldl [OF invariant_run assms, of later] have k: "keeps g ?s ?s'" by simp
  then have 1: "finished ?s' g"
    and 2: "\<forall>p < length (player_objs ?s). game_board (obj ?s p) = Some g \<longrightarrow>
          is_my_turn (obj ?s' p) = is_my_turn (obj ?s p) \<and> game_board (obj ?s' p) = Some g"
    unfolding keeps_def by blast+
  have 3: "step ?s' (w, Receive (Move c)) = ?s'\<lparr>outbox := outbox ?s' @ [(w, Error ''Not your turn'')]\<rparr>"
    if "w \<in> active_connections ?s'" "players ?s' w = Some p" "\<not> is_my_turn (obj ?s' p)" for w p
    using that by (simp add: move_not_turn)
  have 4: "step ?s' (w, Receive (Move c)) = ?s'\<lparr>outbox := outbox ?s' @ [(w, Error ''Invalid move'')]\<rparr>"
    if "w \<in> active_connections ?s'" "players ?s' w = Some p" "game_board (obj ?s' p) = Some g"
      "is_my_turn (obj ?s' p)" "py_index (board_objs ?s' ! g) c = Some i"
      "board_objs ?s' ! g ! i \<noteq> '' ''" for w p i
    using that by (simp add: move_occupied)
  from 1 2 3 4 show ?thesis by blast
qed

theorem finished_match_stays_finished_witness:
  "0 < length (board_objs (run session_won)) \<and> finished (run session_won) 0
   \<and> finished (run (session_won @ [(2, Receive (Move 5))])) 0
   \<and> game_board (obj (run session_won) 0) = Some 0
   \<and> \<not> is_my_turn (obj (run session_won) 0)
   \<and> \<not> is_my_turn (obj (run (session_won @ [(2, Receive (Move 5))])) 0)
   \<and> 1 \<in> active_connections (run (session_won @ [(2, Receive (Move 5))]))
   \<and> players (run (session_won @ [(2, Receive (Move 5))])) 1 = Some 0
   \<and> step (run (session_won @ [(2, Receive (Move 5))])) (1, Receive (Move 8)) =
       (run (session_won @ [(2, Receive (Move 5))]))
         \<lparr>outbox := outbox (run (session_won @ [(2, Receive (Move 5))])) @
            [(1, Error ''Not your turn'')]\<rparr>
   \<and> 2 \<in> active_connections (run (session_won @ [(2, Receive (Move 5))]))
   \<and> players (run (session_won @ [(2, Receive (Move 5))])) 2 = Some 1
   \<and> is_my_turn (obj (run (session_won @ [(2, Receive (Move 5))])) 1)
   \<and> py_index (board_objs (run (session_won @ [(2, Receive (Move 5))])) ! 0) 8 = Some 8
   \<and> py_index (board_objs (run (session_won @ [(2, Receive (Move 5))])) ! 0) (- 9) = Some 0
   \<and> board_objs (run (session_won @ [(2, Receive (Move 5))])) ! 0 ! 0 = ''X''
   \<and> step (run (session_won @ [(2, Receive (Move 5))])) (2, Receive (Move (- 9))) =
       (run (session_won @ [(2, Receive (Move 5))]))
         \<lparr>outbox := outbox (run (session_won @ [(2, Receive (Move 5))])) @
            [(2, Error ''Invalid move'')]\<rparr>"
proof -
  let ?s = "run session_won" and ?s' = "run (session_won @ [(2, Receive (Move 5))])"
  have a: "0 < length (board_objs ?s)"
    and c: "game_board (obj ?s 0) = Some 0" and d: "\<not> is_my_turn (obj ?s 0)"
    and e: "0 < length (player_objs ?s)"
    by (simp_all add: run_session_won obj_def)
  note b = session_won_finished
  have f: "1 \<in> active_connections ?s'" and g: "players ?s' 1 = Some 0"
    by (simp_all add: run_session_won_again run_session_won)
  note t = finished_match_stays_finished [OF a b, of "[(2, Receive (Move 5))]" 8]
  note t1 = t [THEN conjunct1]
  note t2 = t [THEN conjunct2, THEN conjunct1, rule_format, OF e c]
  note t3 = t [THEN conjunct2, THEN conjunct2, THEN conjunct1, rule_format]
  from t2 d have 4: "\<not> is_my_turn (obj ?s' 0)" by simp
  from t2 have 3: "game_board (obj ?s' 0) = Some 0" by simp
  from f g 3 4 have 5: "step ?s' (1, Receive (Move 8)) =
      ?s'\<lparr>outbox := outbox ?s' @ [(1, Error ''Not your turn'')]\<rparr>"
    by (intro t3) simp
  have c1: "game_board (obj ?s 1) = Some 0" and d1: "is_my_turn (obj ?s 1)"
    and e1: "1 < length (player_objs ?s)"
    by (simp_all add: run_session_won obj_def)
  have f1: "2 \<in> active_connections ?s'" and g1: "players ?s' 2 = Some 1"
    and h1: "py_index (board_objs ?s' ! 0) 8 = Some 8"
    and i1: "py_index (board_objs ?s' ! 0) (- 9) = Some 0"
    and j1: "board_objs ?s' ! 0 ! 0 = ''X''"
    by (simp_all add: run_session_won_again run_session_won py_index_def)
  note u = finished_match_stays_finished [OF a b, of "[(2, Receive (Move 5))]" "- 9"]
  note u2 = u [THEN conjunct2, THEN conjunct1, rule_format, OF e1 c1]
  note u4 = u [THEN conjunct2, THEN conjunct2, THEN conjunct2, rule_format]
  from u2 d1 have 6: "is_my_turn (obj ?s' 1)" by simp
  from u2 have 7: "game_board (obj ?s' 1) = Some 0" by simp
  from j1 have 8: "board_objs ?s' ! 0 ! 0 \<noteq> '' ''" by simp
  from f1 g1 7 6 i1 8 have 9: "step ?s' (2, Receive (Move (- 9))) =
      ?s'\<lparr>outbox := outbox ?s' @ [(2, Error ''Invalid move'')]\<rparr>"
    by (intro u4) simp
  show ?thesis
    by (intro conjI a b t1 c d 4 f g 5 f1 g1 6 h1 i1 j1 9)
qed

text \<open>
  The claim as stated fails: after bob has won with the top row, his \<open>move\<close> on the
  empty cell 5 is not rejected; the cell is written and \<open>move\<close> and \<open>gameover\<close>
  are sent again.
\<close>

theorem finished_match_stays_finished_counterexample:
  "finished (run session_won) 0
   \<and> players (run session_won) 2 = Some 1
   \<and> game_board (obj (run session_won) 1) = Some 0
   \<and> board_objs (run session_won) = [[''X'', ''X'', ''X'', ''O'', ''O'', '' '', '' '', '' '', '' '']]
   \<and> board_objs (step (run session_won) (2, Receive (Move 5))) =
        [[''X'', ''X'', ''X'', ''O'', ''O'', ''X'', '' '', '' '', '' '']]
   \<and> outbox (step (run session_won) (2, Receive (Move 5))) =
        outbox (run session_won) @
          [(2, MoveEvent 5 ''X''), (1, MoveEvent 5 ''X''),
           (2, Gameover ''X''), (1, Gameover ''X'')]"
proof -
  have st: "step (run session_won) (2, Receive (Move 5)) = run (session_won @ [(2, Receive (Move 5))])"
    by (simp add: run_snoc)
  have 1: "players (run session_won) 2 = Some 1"
    and 2: "game_board (obj (run session_won) 1) = Some 0"
    and 3: "board_objs (run session_won) = [[''X'', ''X'', ''X'', ''O'', ''O'', '' '', '' '', '' '', '' '']]"
    by (simp_all add: run_session_won obj_def)
  have 4: "board_objs (step (run session_won) (2, Receive (Move 5))) =
        [[''X'', ''X'', ''X'', ''O'', ''O'', ''X'', '' '', '' '', '' '']]"
    and 5: "outbox (step (run session_won) (2, Receive (Move 5))) =
        outbox (run session_won) @
          [(2, MoveEvent 5 ''X''), (1, MoveEvent 5 ''X''),
           (2, Gameover ''X''), (1, Gameover ''X'')]"
    unfolding st run_session_won_again by simp_all
  show ?thesis
    by (intro conjI session_won_finished 1 2 3 4 5)
qed

end
